theory Spec2Isabelle
  imports Main "HOL-Library.Sublist" "HOL-Library.AList" "HOL-Library.Multiset"
begin


section \<open>Python strings\<close>

text \<open>
  A Python \<open>str\<close> is modelled as a \<open>string\<close> whose characters are the code points
  below 256 (Latin-1).  On these, \<open>str.lower()\<close> adds 32 to the upper-case letters
  \<open>A..Z\<close>, \<open>0xC0..0xD6\<close> and \<open>0xD8..0xDE\<close> and leaves every other character alone.
\<close>

definition lower_char :: "char \<Rightarrow> char" where
  "lower_char c =
     (let n = (of_char c :: nat)
      in if (65 \<le> n \<and> n \<le> 90) \<or> (192 \<le> n \<and> n \<le> 214) \<or> (216 \<le> n \<and> n \<le> 222)
         then char_of (n + 32) else c)"

definition lower :: "string \<Rightarrow> string" where
  "lower s = map lower_char s"

text \<open>\<open>k in s\<close> on strings: \<open>k\<close> occurs in \<open>s\<close> as a contiguous substring.\<close>

definition str_in :: "string \<Rightarrow> string \<Rightarrow> bool" where
  "str_in k s = sublist k s"

text \<open>\<open>s.endswith(k)\<close>.\<close>

definition endswith :: "string \<Rightarrow> string \<Rightarrow> bool" where
  "endswith s k = suffix k s"

text \<open>Truthiness of an optional string: \<open>None\<close> and the empty string are false.\<close>

definition truthy_str :: "string option \<Rightarrow> bool" where
  "truthy_str s = (case s of None \<Rightarrow> False | Some v \<Rightarrow> v \<noteq> [])"

section \<open>Year extraction (\<open>html_processor.py\<close>)\<close>

text \<open>On Latin-1 text the regular expression class \<open>\d\<close> is exactly \<open>0..9\<close>.\<close>

definition is_digit :: "char \<Rightarrow> bool" where
  "is_digit c = (let n = (of_char c :: nat) in 48 \<le> n \<and> n \<le> 57)"

definition digit_val :: "char \<Rightarrow> int" where
  "digit_val c = int (of_char c) - 48"

text \<open>\<open>int(s)\<close> for a string of decimal digits.\<close>

definition int_of_digits :: "string \<Rightarrow> int" where
  "int_of_digits s = foldl (\<lambda>acc c. 10 * acc + digit_val c) 0 s"

text \<open>
  \<open>re.findall(r'(20\d{2})', text)\<close>: the non-overlapping matches, scanning from the left;
  after a match the scan resumes behind it, otherwise one character further.
\<close>

fun findall_year :: "string \<Rightarrow> string list" where
  "findall_year (a # b # c # d # rest) =
     (if a = CHR ''2'' \<and> b = CHR ''0'' \<and> is_digit c \<and> is_digit d
      then [a, b, c, d] # findall_year rest
      else findall_year (b # c # d # rest))"
| "findall_year _ = []"

definition extract_year_from_text :: "string \<Rightarrow> int option" where
  "extract_year_from_text txt =
     (let year_matches = findall_year txt
      in if year_matches = [] then None
         else let valid_years =
                    map int_of_digits
                      (filter (\<lambda>y. 2000 \<le> int_of_digits y \<and> int_of_digits y \<le> 2099) year_matches)
              in if valid_years = [] then None
                 else if length valid_years > 1 then Some (last valid_years)
                 else Some (hd valid_years))"

definition extract_year_from_filename :: "string \<Rightarrow> int option" where
  "extract_year_from_filename filename = extract_year_from_text filename"

section \<open>Link classifier (\<open>html_processor.py\<close>)\<close>

text \<open>
  An anchor element as the crawler reads it from the parsed page: the \<open>href\<close> attribute
  (absent or a string), the result of \<open>get_text(strip=True)\<close>, and the \<open>title\<close>
  attribute (\<open>link.get('title', '')\<close>, empty when absent).
\<close>

record anchor =
  a_href :: "string option"
  a_text :: string
  a_title :: string

definition quarterly_keywords :: "string list" where
  "quarterly_keywords =
     [''q1'', ''q2'', ''q3'', ''q4'',
      ''h1'', ''h2'', ''h3'', ''h4'',
      ''quarterly'', ''quarter'', ''half yearly'',
      ''half year'', ''half-yearly'', ''half-year'', ''half'']"

definition annual_keywords :: "string list" where
  "annual_keywords =
     [''annual'', ''yearly'', ''year-end'', ''annual-report'', ''annual_report'', ''financial-report'',
      ''financial statements'', ''consolidated'', ''statements'', ''integrated'',
      ''balance sheet'', ''income statement'', ''cash flow'', ''profit and loss'',
      ''p&l'', ''accounts'', ''financial report'', ''balance'', ''income'', ''cash'',
      ''profit'', ''loss'', ''sheet'', ''flow'', ''report'', ''financial'']"

text \<open>\<open>s.lower() if s else ""\<close> for an optional string.\<close>

definition lower_or_empty :: "string option \<Rightarrow> string" where
  "lower_or_empty s = (case s of None \<Rightarrow> [] | Some v \<Rightarrow> if v \<noteq> [] then lower v else [])"

definition is_quarter_report :: "anchor option \<Rightarrow> string option \<Rightarrow> bool" where
  "is_quarter_report link url =
     (let link_text = (case link of Some l \<Rightarrow> lower (a_text l) | None \<Rightarrow> []);
          url_lower = lower_or_empty url
      in list_ex (\<lambda>keyword. str_in keyword link_text \<or> str_in keyword url_lower)
           quarterly_keywords)"

text \<open>
  \<open>_is_annual_report(text, url, filename, link)\<close>; every argument may be \<open>None\<close>.  A given
  link replaces \<open>text\<close> by the link text, and supplies \<open>url\<close> from its \<open>href\<close> when no
  URL was passed.
\<close>

definition is_annual_report ::
  "string option \<Rightarrow> string option \<Rightarrow> string option \<Rightarrow> anchor option \<Rightarrow> bool" where
  "is_annual_report text0 url0 filename link =
     (let text1 = (case link of Some l \<Rightarrow> Some (a_text l) | None \<Rightarrow> text0);
          url = (case link of
                   Some l \<Rightarrow> (if url0 = None
                               then Some (case a_href l of None \<Rightarrow> [] | Some h \<Rightarrow> h)
                               else url0)
                 | None \<Rightarrow> url0)
      in if is_quarter_report link url then False
         else if truthy_str filename \<and>
                 list_ex (\<lambda>keyword. str_in keyword (lower_or_empty filename)) quarterly_keywords
         then False
         else
           let all_text =
                 (if truthy_str text1 then [lower_or_empty text1] else []) @
                 (if truthy_str url then [lower_or_empty url] else []) @
                 (if truthy_str filename then [lower_or_empty filename] else [])
           in if truthy_str filename \<and>
                 \<not> (endswith (lower_or_empty filename) ''.pdf'' \<or>
                    endswith (lower_or_empty filename) ''.xlsx'')
              then False
              else if truthy_str url \<and> \<not> truthy_str filename \<and>
                      \<not> (endswith (lower_or_empty url) ''.pdf'' \<or>
                         endswith (lower_or_empty url) ''.xlsx'')
              then False
              else list_ex (\<lambda>text_part. list_ex (\<lambda>keyword. str_in keyword text_part) annual_keywords)
                     all_text)"

definition extract_year_from_link :: "anchor \<Rightarrow> string \<Rightarrow> int option" where
  "extract_year_from_link link url =
     (case extract_year_from_text (a_text link) of
        Some y \<Rightarrow> if y \<noteq> 0 then Some y else extract_year_from_text url
      | None \<Rightarrow> extract_year_from_text url)"

text \<open>
  Some text contains a token \<open>20dd\<close> (two decimal digits after \<open>20\<close>), anywhere and
  possibly overlapping other tokens.
\<close>

definition has_year_token :: "string \<Rightarrow> bool" where
  "has_year_token t = (\<exists>c d. is_digit c \<and> is_digit d \<and> str_in [CHR ''2'', CHR ''0'', c, d] t)"

section \<open>Documents and the ranker (\<open>models.py\<close>, \<open>reports_ranker.py\<close>, \<open>search_reports.py\<close>)\<close>

text \<open>\<open>ExtractedDocument\<close>: a dataclass, compared by value.\<close>

record document =
  doc_url :: string
  doc_title :: string
  doc_content :: string
  doc_year :: "int option"

text \<open>
  Truthiness of an optional year (\<open>if year:\<close>, \<open>if doc.year\<close>): \<open>None\<close> and \<open>0\<close> are
  false.
\<close>

definition truthy_year :: "int option \<Rightarrow> bool" where
  "truthy_year y = (case y of None \<Rightarrow> False | Some v \<Rightarrow> v \<noteq> 0)"

definition priority_keywords :: "string list" where
  "priority_keywords =
     [''form 20f'', ''20-f'', ''20f'', ''form20f'',
      ''annual report'', ''annual'', ''yearly'',
      ''financial report'', ''consolidated'',
      ''statements'', ''accounts'']"

text \<open>The local list \<open>quarterly_keywords\<close> of \<open>_calculate_report_score\<close>.\<close>

definition score_quarterly_keywords :: "string list" where
  "score_quarterly_keywords = [''q1'', ''q2'', ''q3'', ''q4'', ''quarterly'', ''quarter'']"

text \<open>
  The loop over \<open>enumerate(self.priority_keywords)\<close>: the first keyword found in the title
  or the URL adds \<open>(len(priority_keywords) - i) * 10\<close>, and the loop breaks.
\<close>

fun priority_bonus :: "nat \<Rightarrow> string list \<Rightarrow> string \<Rightarrow> string \<Rightarrow> int" where
  "priority_bonus i [] title url = 0"
| "priority_bonus i (keyword # rest) title url =
     (if str_in keyword title \<or> str_in keyword url
      then (int (length priority_keywords) - int i) * 10
      else priority_bonus (Suc i) rest title url)"

text \<open>The loop over the quarterly keywords: every keyword found subtracts 100.\<close>

definition quarterly_penalty :: "string \<Rightarrow> string \<Rightarrow> int \<Rightarrow> int" where
  "quarterly_penalty title url score0 =
     foldl (\<lambda>score keyword. if str_in keyword title \<or> str_in keyword url then score - 100 else score)
       score0 score_quarterly_keywords"

definition calculate_report_score :: "document \<Rightarrow> int" where
  "calculate_report_score report =
     (let title = lower (doc_title report);
          url = lower (doc_url report);
          score = 0;
          score = (if endswith url ''.xlsx'' then score + 200
                   else if endswith url ''.pdf'' then score + 100 else score);
          score = score + priority_bonus 0 priority_keywords title url;
          score = (if str_in ''form'' title \<and> str_in ''20'' title then score + 50 else score);
          score = (if str_in ''annual'' title then score + 30 else score);
          score = (if str_in ''consolidated'' title then score + 20 else score);
          score = (if str_in ''financial'' title then score + 15 else score);
          score = (if str_in ''statements'' title then score + 10 else score);
          score = (if str_in ''transparency'' title \<or> str_in ''disclosure'' title
                   then score - 25 else score)
      in quarterly_penalty title url score)"

text \<open>
  \<open>list.sort(key=lambda x: x[0], reverse=True)\<close>: Python's sort is stable, also with
  \<open>reverse=True\<close>, so the result is in descending key order and elements with equal
  keys keep their original order.  This is the stable insertion sort on the negated key.
\<close>

definition sort_reverse :: "('a \<Rightarrow> int) \<Rightarrow> 'a list \<Rightarrow> 'a list" where
  "sort_reverse key xs = sort_key (\<lambda>x. - key x) xs"

definition rank_reports_for_year :: "document list \<Rightarrow> (int \<times> document) list" where
  "rank_reports_for_year year_reports =
     (if year_reports = [] then []
      else sort_reverse fst (map (\<lambda>report. (calculate_report_score report, report)) year_reports))"

text \<open>
  A Python \<open>dict\<close> with integer keys is an association list in insertion order:
  assigning to a new key appends, assigning to an existing key keeps its place
  (\<open>AList.update\<close>).
\<close>

type_synonym 'v year_dict = "(int \<times> 'v) list"

text \<open>
  One iteration of the grouping loop of \<open>rank_reports_for_company\<close>: a report whose year is
  falsy is ignored; otherwise the year's list is created when missing and the report is
  appended to it.
\<close>

definition group_by_year_step :: "document list year_dict \<Rightarrow> document \<Rightarrow> document list year_dict" where
  "group_by_year_step reports_by_year report =
     (case doc_year report of
        None \<Rightarrow> reports_by_year
      | Some y \<Rightarrow>
          if y = 0 then reports_by_year
          else (case map_of reports_by_year y of
                  None \<Rightarrow> AList.update y ([] @ [report]) reports_by_year
                | Some rs \<Rightarrow> AList.update y (rs @ [report]) reports_by_year))"

definition rank_reports_for_company :: "document list \<Rightarrow> (int \<times> document) list year_dict" where
  "rank_reports_for_company reports0 =
     (if reports0 = [] then []
      else let reports_by_year = foldl group_by_year_step [] reports0
           in map (\<lambda>(y, year_reports). (y, rank_reports_for_year year_reports)) reports_by_year)"

record year_selection =
  sel_year :: int
  best :: "document list"
  secondary :: "document list"

record selection =
  years_covered :: "int list"
  sel_reports :: "year_selection list"

text \<open>
  The body of the loop of \<open>select_best_reports\<close> for one year: no entry for an empty
  ranking, otherwise the first ranked report as best and the second and third as
  secondary.
\<close>

definition select_year :: "int \<Rightarrow> (int \<times> document) list \<Rightarrow> year_selection option" where
  "select_year y ranked_year_reports =
     (if ranked_year_reports = [] then None
      else Some \<lparr> sel_year = y,
                  best = (if length ranked_year_reports \<ge> 1
                          then [snd (ranked_year_reports ! 0)] else []),
                  secondary =
                    (if length ranked_year_reports \<ge> 2
                     then [snd (ranked_year_reports ! 1)] else []) @
                    (if length ranked_year_reports \<ge> 3
                     then [snd (ranked_year_reports ! 2)] else []) \<rparr>)"

text \<open>
  \<open>select_best_reports\<close>: the years are the sorted keys; \<open>ranked_reports[year]\<close> cannot
  raise since the year is a key.
\<close>

definition select_best_reports :: "(int \<times> document) list year_dict \<Rightarrow> selection" where
  "select_best_reports ranked_reports =
     (let years = sort (map fst ranked_reports)
      in \<lparr> years_covered = years,
           sel_reports =
             List.map_filter
               (\<lambda>y. case map_of ranked_reports y of
                      None \<Rightarrow> None
                    | Some ranked_year_reports \<Rightarrow> select_year y ranked_year_reports)
               years \<rparr>)"

definition process_company_reports :: "document list \<Rightarrow> selection" where
  "process_company_reports reports0 = select_best_reports (rank_reports_for_company reports0)"

text \<open>
  \<open>_filter_documents_by_year\<close>; \<open>min_year\<close> is \<open>self.min_year\<close> and \<open>current_year\<close> is
  \<open>datetime.now().year\<close> at the time of the call.
\<close>

definition calculate_min_year :: "int \<Rightarrow> int \<Rightarrow> int" where
  "calculate_min_year current_year years_back = current_year - years_back - 1"

definition filter_documents_by_year :: "int \<Rightarrow> int \<Rightarrow> document list \<Rightarrow> document list" where
  "filter_documents_by_year min_year current_year documents =
     filter (\<lambda>doc. truthy_year (doc_year doc) \<and>
                   (case doc_year doc of None \<Rightarrow> False
                    | Some y \<Rightarrow> min_year \<le> y \<and> y < current_year))
       documents"

text \<open>
  The parts of the score, named for the statements below: the file-type bonus, and the
  flat bonuses and the transparency penalty read from the title.  Lemma \<open>score_parts\<close>
  shows that \<open>calculate_report_score\<close> is their sum with the priority bonus and the
  quarterly penalty.
\<close>

definition file_bonus :: "string \<Rightarrow> int" where
  "file_bonus url = (if endswith url ''.xlsx'' then 200 else if endswith url ''.pdf'' then 100 else 0)"

definition title_bonus :: "string \<Rightarrow> int" where
  "title_bonus title =
     (if str_in ''form'' title \<and> str_in ''20'' title then 50 else 0) +
     (if str_in ''annual'' title then 30 else 0) +
     (if str_in ''consolidated'' title then 20 else 0) +
     (if str_in ''financial'' title then 15 else 0) +
     (if str_in ''statements'' title then 10 else 0) -
     (if str_in ''transparency'' title \<or> str_in ''disclosure'' title then 25 else 0)"

text \<open>
  The keywords the score looks for in a title, other than \<open>quarterly\<close> and \<open>quarter\<close>.
  Two titles that agree on all of them are identical for the score except for these two.
\<close>

definition other_title_keywords :: "string list" where
  "other_title_keywords =
     priority_keywords @
     [''form'', ''20'', ''annual'', ''consolidated'', ''financial'', ''statements'',
      ''transparency'', ''disclosure'', ''q1'', ''q2'', ''q3'', ''q4'']"

text \<open>A report paired with its score, as \<open>_rank_reports_for_year\<close> builds it.\<close>

definition scored :: "document \<Rightarrow> int \<times> document" where
  "scored report = (calculate_report_score report, report)"

text \<open>The candidates of one year among the reports handed to the ranker.\<close>

definition candidates_of_year :: "int \<Rightarrow> document list \<Rightarrow> document list" where
  "candidates_of_year y reports0 = filter (\<lambda>r. doc_year r = Some y) reports0"

text \<open>The years that have a candidate: the truthy years of the reports.\<close>

definition candidate_years :: "document list \<Rightarrow> int set" where
  "candidate_years reports0 = {y. y \<noteq> 0 \<and> (\<exists>r \<in> set reports0. doc_year r = Some y)}"

text \<open>
  Lines 103--111 of \<open>search_all_companies\<close> for one company, given the documents the
  crawl returned: filter by year, then rank and select, or the empty selection when
  nothing is left.
\<close>

definition select_for_company :: "int \<Rightarrow> int \<Rightarrow> document list \<Rightarrow> selection" where
  "select_for_company min_year current_year all_documents =
     (let reports0 = filter_documents_by_year min_year current_year all_documents
      in if reports0 \<noteq> [] then process_company_reports reports0
         else \<lparr> years_covered = [], sel_reports = [] \<rparr>)"

section \<open>The HTTP client (\<open>http_client.py\<close>)\<close>

text \<open>
  What the crawler reads from a successful response: the three headers it inspects
  (\<open>response.headers.get(name, '')\<close>, empty when absent) and the anchors of the parsed
  body in document order (\<open>None\<close> when the parser raises).
\<close>

record response =
  resp_disposition :: string
  resp_description :: string
  resp_content_type :: string
  resp_anchors :: "anchor list option"

text \<open>
  The outcome of one \<open>session.get(url)\<close> followed by \<open>raise_for_status()\<close>: a response, one
  of the exceptions of the first \<open>except\<close> clause (\<open>ConnectionError\<close>, \<open>Timeout\<close>,
  \<open>ChunkedEncodingError\<close>, \<open>ReadTimeout\<close>), or any other \<open>RequestException\<close> (an HTTP
  error status among them).  The network is a function from the number of calls made so
  far and the URL to the outcome, so that repeated requests may be answered differently.
  The retries that the mounted adapter makes inside one \<open>session.get\<close> are part of that
  call.
\<close>

datatype net_result = Response response | TransientError | RequestError

type_synonym network = "nat \<Rightarrow> string \<Rightarrow> net_result"

text \<open>
  The state of the client: the set of problematic URLs and the number of \<open>session.get\<close>
  calls made.  Three logs record what happened, for the statements below: the URLs
  \<open>make_request\<close> was called with, the URLs \<open>session.get\<close> was called with, and the delays
  slept.
\<close>

record http_state =
  problematic_urls :: "string set"
  get_count :: nat
  request_log :: "string list"
  get_log :: "string list"
  sleep_log :: "nat list"

definition max_retries :: nat where
  "max_retries = 3"

definition base_delay :: nat where
  "base_delay = 1"

text \<open>
  The loop \<open>for attempt in range(max_retries)\<close> of \<open>make_request\<close>, over the attempts that
  are left.  A response ends the loop; a transient error sleeps and goes on unless this
  was the last attempt, which marks the URL and gives up; any other error marks the URL
  and gives up at once.  Falling out of the loop returns \<open>None\<close>.
\<close>

fun request_attempts ::
  "network \<Rightarrow> string \<Rightarrow> nat list \<Rightarrow> 'a http_state_scheme \<Rightarrow> response option \<times> 'a http_state_scheme" where
  "request_attempts net url [] st = (None, st)"
| "request_attempts net url (attempt # later) st =
     (let st1 = st\<lparr> get_count := get_count st + 1, get_log := get_log st @ [url] \<rparr>
      in case net (get_count st) url of
           Response r \<Rightarrow> (Some r, st1)
         | TransientError \<Rightarrow>
             if attempt < max_retries - 1
             then request_attempts net url later
                    (st1\<lparr> sleep_log := sleep_log st1 @ [base_delay * 2 ^ attempt] \<rparr>)
             else (None, st1\<lparr> problematic_urls := insert url (problematic_urls st1) \<rparr>)
         | RequestError \<Rightarrow>
             (None, st1\<lparr> problematic_urls := insert url (problematic_urls st1) \<rparr>))"

definition make_request ::
  "network \<Rightarrow> string \<Rightarrow> 'a http_state_scheme \<Rightarrow> response option \<times> 'a http_state_scheme" where
  "make_request net url st0 =
     (let st = st0\<lparr> request_log := request_log st0 @ [url] \<rparr>
      in if url \<in> problematic_urls st then (None, st)
         else request_attempts net url [0..<max_retries] st)"



section \<open>The crawler (\<open>html_processor.py\<close>)\<close>

subsection \<open>String helpers\<close>

text \<open>\<open>s.split(c)\<close> for a one-character separator: never empty.\<close>

fun split_on :: "char \<Rightarrow> string \<Rightarrow> string list" where
  "split_on c [] = [[]]"
| "split_on c (x # xs) =
     (if x = c then [] # split_on c xs
      else (case split_on c xs of
              w # ws \<Rightarrow> (x # w) # ws
            | [] \<Rightarrow> [[x]]))"

text \<open>\<open>'.'.join(parts)\<close>.\<close>

fun join_dot :: "string list \<Rightarrow> string" where
  "join_dot [] = []"
| "join_dot [p] = p"
| "join_dot (p # q # ps) = p @ ''.'' @ join_dot (q # ps)"

text \<open>
  White space on Latin-1 text, as \<open>\s\<close> and \<open>str.strip()\<close> see it: the code points 9 to 13,
  28 to 32, 133 and 160.
\<close>

definition is_space :: "char \<Rightarrow> bool" where
  "is_space c =
     (let n = (of_char c :: nat)
      in (9 \<le> n \<and> n \<le> 13) \<or> (28 \<le> n \<and> n \<le> 32) \<or> n = 133 \<or> n = 160)"

definition is_quote :: "char \<Rightarrow> bool" where
  "is_quote c = (c = CHR 0x22 \<or> c = CHR 0x27)"

text \<open>\<open>s.strip()\<close> and \<open>s.strip('"\'')\<close>.\<close>

definition strip_chars :: "(char \<Rightarrow> bool) \<Rightarrow> string \<Rightarrow> string" where
  "strip_chars p s = rev (dropWhile p (rev (dropWhile p s)))"

subsection \<open>Skipped and social links\<close>

definition ignore_paths :: "string list" where
  "ignore_paths =
     [''/careers'', ''/contact'', ''/contact-us'', ''/about'', ''/news'', ''/press'',
      ''/media'', ''/blog'', ''/support'', ''/help'', ''/faq'', ''/terms'',
      ''/privacy'', ''/legal'', ''/cookies'', ''/sitemap'', ''/search'', ''/login'',
      ''/register'', ''/account'', ''/profile'', ''/settings'', ''/cart'',
      ''/checkout'', ''/shop'', ''/store'', ''/products'', ''/services'',
      ''/solutions'', ''/technology'', ''/innovation'', ''/research'',
      ''/development'', ''/sustainability'', ''/environment'', ''/social'',
      ''/governance'', ''/esg'', ''/community'', ''/foundation'', ''/charity'',
      ''/donate'', ''/volunteer'', ''/events'', ''/webinar'', ''/conference'',
      ''/training'', ''/education'', ''/university'', ''/partnership'',
      ''/alliance'', ''/network'', ''/membership'', ''/awards'', ''/recognition'',
      ''/testimonials'', ''/case-study'', ''/success-story'', ''/gallery'',
      ''/photos'', ''/videos'', ''/podcast'', ''/webcast'', ''/live'', ''/stream'',
      ''/broadcast'', ''/tv'', ''/radio'', ''/magazine'', ''/newsletter'',
      ''/subscription'', ''/rss'', ''/feed'', ''/api/auth'', ''/api/user'',
      ''/api/login'', ''/developer'', ''/docs'', ''/documentation'', ''/guide'',
      ''/tutorial'', ''/manual'', ''/handbook'', ''/whitepaper'', ''/ebook'',
      ''/brochure'', ''/catalog'', ''/portfolio'', ''/showcase'', ''/demo'',
      ''/trial'', ''/free'', ''/premium'', ''/pro'', ''/enterprise'', ''/business'',
      ''/corporate'', ''/institutional'']"

definition social_domains :: "string list" where
  "social_domains =
     [''facebook.com'', ''fb.com'', ''instagram.com'', ''twitter.com'', ''x.com'',
      ''linkedin.com'', ''youtube.com'', ''youtu.be'', ''tiktok.com'',
      ''snapchat.com'', ''pinterest.com'', ''reddit.com'', ''telegram.org'',
      ''whatsapp.com'', ''wechat.com'', ''weibo.com'', ''vk.com'', ''tumblr.com'',
      ''flickr.com'', ''vimeo.com'']"

definition social_keywords :: "string list" where
  "social_keywords =
     [''facebook'', ''instagram'', ''twitter'', ''linkedin'', ''youtube'',
      ''follow us'', ''like us'', ''share'', ''social media'', ''connect with us'']"

definition should_skip_url :: "string \<Rightarrow> bool" where
  "should_skip_url url =
     (let url_lower = lower url
      in list_ex (\<lambda>ignore_path. str_in ignore_path url_lower) ignore_paths)"

definition is_social_media_link :: "string \<Rightarrow> string \<Rightarrow> bool" where
  "is_social_media_link href link_text =
     (let href_lower = lower href; text_lower = lower link_text
      in if list_ex (\<lambda>domain. str_in domain href_lower) social_domains then True
         else if list_ex (\<lambda>keyword. str_in keyword text_lower) social_keywords then True
         else False)"

text \<open>\<open>href.lower().startswith(('mailto:', 'tel:', 'javascript:', '#'))\<close>.\<close>

definition non_web_link :: "string \<Rightarrow> bool" where
  "non_web_link href =
     list_ex (\<lambda>p. prefix p (lower href)) [''mailto:'', ''tel:'', ''javascript:'', ''#'']"

subsection \<open>File names from headers and URLs\<close>

text \<open>
  \<open>re.search(pattern, s, re.IGNORECASE)\<close> for the two patterns of
  \<open>_extract_filename_from_disposition\<close>: the group of the leftmost match.  A match at the
  start of \<open>s\<close> reads \<open>filename\<close> in any letter case, an optional \<open>*\<close>, \<open>=\<close>, for the first
  pattern an optional quote, and then the longest non-empty run of characters outside
  the excluded class.  Neither optional item can be given back to make a failed match
  succeed: what follows it cannot start with the character it matched.
\<close>

definition filename_group_at :: "bool \<Rightarrow> string \<Rightarrow> string option" where
  "filename_group_at quoted s =
     (if length s \<ge> 8 \<and> lower (take 8 s) = ''filename''
      then let r0 = drop 8 s;
               r1 = (case r0 of c # r \<Rightarrow> if c = CHR ''*'' then r else r0 | [] \<Rightarrow> r0)
           in (case r1 of
                 [] \<Rightarrow> None
               | c # r2 \<Rightarrow>
                   if c = CHR ''=''
                   then let r3 = (if quoted
                                  then (case r2 of q # r \<Rightarrow> if is_quote q then r else r2 | [] \<Rightarrow> r2)
                                  else r2);
                            g = takeWhile
                                  (\<lambda>x. \<not> (x = CHR '';'' \<or> is_space x \<or> (quoted \<and> is_quote x))) r3
                        in if g \<noteq> [] then Some g else None
                   else None)
      else None)"

fun search_from :: "(string \<Rightarrow> 'a option) \<Rightarrow> string \<Rightarrow> 'a option" where
  "search_from m [] = m []"
| "search_from m (c # cs) =
     (case m (c # cs) of Some g \<Rightarrow> Some g | None \<Rightarrow> search_from m cs)"

definition extract_filename_from_disposition :: "string \<Rightarrow> string option" where
  "extract_filename_from_disposition disposition =
     (case search_from (filename_group_at True) disposition of
        Some g \<Rightarrow> Some (strip_chars is_quote (strip_chars is_space g))
      | None \<Rightarrow>
          (case search_from (filename_group_at False) disposition of
             Some g \<Rightarrow> Some (strip_chars is_quote (strip_chars is_space g))
           | None \<Rightarrow> None))"

text \<open>
  The functions of \<open>urllib.parse\<close> are parameters of the model: \<open>urljoin(base, href)\<close>, the
  \<open>netloc\<close> of \<open>urlparse(url)\<close> and \<open>unquote(urlparse(url).path)\<close>, each \<open>None\<close> where the
  library raises \<open>ValueError\<close>; and so is the network.
\<close>

record env =
  env_net :: network
  env_urljoin :: "string \<Rightarrow> string \<Rightarrow> string option"
  env_netloc :: "string \<Rightarrow> string option"
  env_path :: "string \<Rightarrow> string option"

text \<open>The result of a call that may raise.\<close>

datatype 'a exc = Raised | Returned 'a

definition extract_filename_from_url :: "env \<Rightarrow> string \<Rightarrow> string option exc" where
  "extract_filename_from_url e url =
     (case env_path e url of
        None \<Rightarrow> Raised
      | Some path \<Rightarrow>
          let filename = last (split_on CHR ''/'' path)
          in if str_in ''.'' filename \<and> length filename > 3 then Returned (Some filename)
             else Returned None)"

subsection \<open>Domain restriction\<close>

definition extract_base_domain :: "env \<Rightarrow> string \<Rightarrow> string exc" where
  "extract_base_domain e url =
     (case env_netloc e url of
        None \<Rightarrow> Raised
      | Some netloc \<Rightarrow>
          let domain = lower netloc;
              domain = (if str_in '':'' domain
                        then (case split_on CHR '':'' domain of d # _ \<Rightarrow> d | [] \<Rightarrow> domain)
                        else domain);
              parts = split_on CHR ''.'' domain
          in Returned (if length parts \<ge> 2 then join_dot (drop (length parts - 2) parts)
                       else domain))"

text \<open>
  \<open>_is_same_domain\<close>: everything passes while no base domain is set (\<open>None\<close> or empty); a
  URL whose parsing raises does not pass.
\<close>

definition is_same_domain :: "env \<Rightarrow> string option \<Rightarrow> string \<Rightarrow> bool" where
  "is_same_domain e base url =
     (if \<not> truthy_str base then True
      else (case extract_base_domain e url of
              Raised \<Rightarrow> False
            | Returned url_domain \<Rightarrow> Some url_domain = base))"

subsection \<open>Crawl state\<close>

text \<open>
  The state of an \<open>HTMLPageProcessor\<close>: its client, the queue of \<open>(url, depth)\<close> pairs,
  the visited set, the documents found, the depth bound and the base domain.  Two more
  logs serve the statements below: the URLs handed to \<open>_process_url_from_queue\<close> and the
  URLs appended to the queue by \<open>_find_and_queue_links\<close>.
\<close>

record crawler = http_state +
  url_queue :: "(string \<times> nat) list"
  visited_urls :: "string set"
  found_documents :: "document list"
  max_depth :: nat
  base_domain :: "string option"
  processed_log :: "string list"
  enqueue_log :: "string list"

text \<open>
  A loop whose body may raise: the exception ends the loop and leaves the state as it
  is at that point.  The flag tells whether the loop ran to its end.
\<close>

fun for_each :: "('x \<Rightarrow> 's \<Rightarrow> bool \<times> 's) \<Rightarrow> 'x list \<Rightarrow> 's \<Rightarrow> bool \<times> 's" where
  "for_each body [] s = (True, s)"
| "for_each body (x # xs) s =
     (case body x s of
        (True, s1) \<Rightarrow> for_each body xs s1
      | (False, s1) \<Rightarrow> (False, s1))"

definition add_document :: "document \<Rightarrow> crawler \<Rightarrow> crawler" where
  "add_document doc st = st\<lparr> found_documents := found_documents st @ [doc] \<rparr>"

subsection \<open>Documents announced by headers\<close>

text \<open>\<open>a or b\<close> on optional years.\<close>

definition year_or :: "int option \<Rightarrow> int option \<Rightarrow> int option" where
  "year_or a b = (if truthy_year a then a else b)"

text \<open>
  The body of the loop over the \<open>Content-Disposition\<close> and \<open>Content-Description\<close> header
  values of \<open>_check_headers_for_documents\<close>.
\<close>

definition header_document :: "string \<Rightarrow> string \<Rightarrow> crawler \<Rightarrow> crawler" where
  "header_document url header_value st =
     (if header_value \<noteq> []
      then (case extract_filename_from_disposition header_value of
              None \<Rightarrow> st
            | Some filename \<Rightarrow>
                if filename \<noteq> [] \<and> is_annual_report None None (Some filename) None
                then add_document
                       \<lparr> doc_url = url, doc_title = filename, doc_content = [],
                         doc_year = extract_year_from_filename filename \<rparr> st
                else st)
      else st)"

text \<open>
  \<open>_check_headers_for_documents\<close>: a request of its own for the URL, then the two header
  values, then the content type.  An exception (here: from parsing the URL) is caught and
  ends the check.
\<close>

definition check_headers_for_documents :: "env \<Rightarrow> string \<Rightarrow> crawler \<Rightarrow> crawler" where
  "check_headers_for_documents e url st =
     (case make_request (env_net e) url st of
        (None, st1) \<Rightarrow> st1
      | (Some resp, st1) \<Rightarrow>
          let st2 = header_document url (resp_description resp)
                      (header_document url (resp_disposition resp) st1);
              content_type = lower (resp_content_type resp)
          in if str_in ''pdf'' content_type \<or> str_in ''excel'' content_type \<or>
                str_in ''spreadsheet'' content_type
             then (case extract_filename_from_url e url of
                     Raised \<Rightarrow> st2
                   | Returned from_url \<Rightarrow>
                       let filename = (case from_url of
                                         Some f \<Rightarrow> if f \<noteq> [] then f
                                                   else last (split_on CHR ''/'' url)
                                       | None \<Rightarrow> last (split_on CHR ''/'' url))
                       in if is_annual_report None (Some url) (Some filename) None
                          then add_document
                                 \<lparr> doc_url = url, doc_title = filename, doc_content = [],
                                   doc_year = year_or (extract_year_from_filename filename)
                                                (extract_year_from_text url) \<rparr> st2
                          else st2)
             else st2)"

subsection \<open>Direct document links\<close>

text \<open>
  \<open>re.compile(r'\.pdf$', re.IGNORECASE)\<close> searched in an \<open>href\<close>: the extension at the end
  of the string, or just before a final newline.
\<close>

definition href_has_extension :: "string \<Rightarrow> anchor \<Rightarrow> bool" where
  "href_has_extension ext link =
     (case a_href link of
        None \<Rightarrow> False
      | Some href \<Rightarrow> endswith (lower href) ext \<or> endswith (lower href) (ext @ [CHR 0x0A]))"

definition process_document_link ::
  "env \<Rightarrow> anchor \<Rightarrow> string \<Rightarrow> string \<Rightarrow> document list \<Rightarrow> document option exc" where
  "process_document_link e link base_url file_type found =
     (case a_href link of
        None \<Rightarrow> Returned None
      | Some href \<Rightarrow>
          if href = [] then Returned None
          else (case env_urljoin e base_url href of
                  None \<Rightarrow> Raised
                | Some full_url \<Rightarrow>
                    if list_ex (\<lambda>doc. doc_url doc = full_url) found then Returned None
                    else let year = extract_year_from_link link full_url
                         in if is_quarter_report (Some link) (Some full_url) then Returned None
                            else if is_annual_report None (Some full_url) None (Some link)
                            then let title = (if a_text link \<noteq> [] then a_text link
                                              else a_title link);
                                     title = (if endswith (lower title) (lower file_type)
                                              then take (length title - length file_type) title
                                              else title)
                                 in Returned (Some \<lparr> doc_url = full_url, doc_title = title,
                                                     doc_content = [], doc_year = year \<rparr>)
                            else Returned None))"

definition document_link_step :: "env \<Rightarrow> string \<Rightarrow> string \<Rightarrow> anchor \<Rightarrow> crawler \<Rightarrow> bool \<times> crawler" where
  "document_link_step e base_url file_type link st =
     (case process_document_link e link base_url file_type (found_documents st) of
        Raised \<Rightarrow> (False, st)
      | Returned None \<Rightarrow> (True, st)
      | Returned (Some doc) \<Rightarrow> (True, add_document doc st))"

definition find_direct_documents :: "env \<Rightarrow> string \<Rightarrow> anchor list \<Rightarrow> crawler \<Rightarrow> bool \<times> crawler" where
  "find_direct_documents e base_url soup st =
     (let pdf_links = filter (href_has_extension ''.pdf'') soup;
          xlsx_links = filter (href_has_extension ''.xlsx'') soup
      in case for_each (document_link_step e base_url ''PDF'') pdf_links st of
           (False, st1) \<Rightarrow> (False, st1)
         | (True, st1) \<Rightarrow> for_each (document_link_step e base_url ''XLSX'') xlsx_links st1)"

subsection \<open>Links to follow\<close>

definition queue_link_step :: "env \<Rightarrow> string \<Rightarrow> nat \<Rightarrow> anchor \<Rightarrow> crawler \<Rightarrow> bool \<times> crawler" where
  "queue_link_step e base_url next_depth link st =
     (case a_href link of
        None \<Rightarrow> (True, st)
      | Some href \<Rightarrow>
          if href = [] \<or> a_text link = [] then (True, st)
          else if non_web_link href then (True, st)
          else if is_social_media_link href (a_text link) then (True, st)
          else (case env_urljoin e base_url href of
                  None \<Rightarrow> (False, st)
                | Some link_url \<Rightarrow>
                    if \<not> is_same_domain e (base_domain st) link_url then (True, st)
                    else if should_skip_url link_url then (True, st)
                    else if link_url \<in> visited_urls st then (True, st)
                    else if list_ex (\<lambda>(url, _). url = link_url) (url_queue st) then (True, st)
                    else (True, st\<lparr> url_queue := url_queue st @ [(link_url, next_depth)],
                                     enqueue_log := enqueue_log st @ [link_url] \<rparr>)))"

definition find_and_queue_links ::
  "env \<Rightarrow> string \<Rightarrow> anchor list \<Rightarrow> nat \<Rightarrow> crawler \<Rightarrow> bool \<times> crawler" where
  "find_and_queue_links e base_url soup current_depth st =
     (let all_links = filter (\<lambda>link. a_href link \<noteq> None) soup;
          next_depth = current_depth + 1
      in for_each (queue_link_step e base_url next_depth) all_links st)"

subsection \<open>The crawl\<close>

text \<open>
  \<open>_process_url_from_queue\<close>: every exception raised inside is caught and ends the
  processing of this URL with the state reached so far.
\<close>

definition process_url_from_queue :: "env \<Rightarrow> string \<Rightarrow> nat \<Rightarrow> crawler \<Rightarrow> crawler" where
  "process_url_from_queue e url current_depth st =
     (case make_request (env_net e) url st of
        (None, st1) \<Rightarrow> st1
      | (Some resp, st1) \<Rightarrow>
          (case resp_anchors resp of
             None \<Rightarrow> st1
           | Some soup \<Rightarrow>
               let st2 = check_headers_for_documents e url st1
               in (case find_direct_documents e url soup st2 of
                     (False, st3) \<Rightarrow> st3
                   | (True, st3) \<Rightarrow>
                       if current_depth < max_depth st3
                       then snd (find_and_queue_links e url soup current_depth st3)
                       else st3)))"

text \<open>
  The weight of a queue for the termination of the crawl: how far below the depth bound
  each queued URL is.
\<close>

definition queue_weight :: "crawler \<Rightarrow> nat multiset" where
  "queue_weight st = mset (map (\<lambda>(url, depth). max_depth st - depth) (url_queue st))"

subsection \<open>Termination of the crawl\<close>

text \<open>
  The crawl terminates because a URL leaves the queue in every iteration, and what the
  processing of a URL at depth \<open>d\<close> appends is at depth \<open>d + 1\<close> and is appended only
  while \<open>d\<close> is below the depth bound.  The lemmas below establish this for the steps
  of the processing; the multiset of the queue's weights then decreases.
\<close>

lemma request_attempts_client_only:
  fixes st :: crawler
  shows "\<exists>pu gc rl gl sl. snd (request_attempts net url as st) =
           st\<lparr>problematic_urls := pu, get_count := gc, request_log := rl, get_log := gl, sleep_log := sl\<rparr>"
proof (induction as arbitrary: st)
  case Nil
  have "st = st\<lparr>problematic_urls := problematic_urls st, get_count := get_count st,
                request_log := request_log st, get_log := get_log st, sleep_log := sleep_log st\<rparr>"
    by simp
  then show ?case by (metis request_attempts.simps(1) snd_conv)
next
  case (Cons a as)
  show ?case
  proof (cases "net (get_count st) url")
    case (Response r)
    have "snd (request_attempts net url (a # as) st) =
       st\<lparr>problematic_urls := problematic_urls st, get_count := get_count st + 1,
          request_log := request_log st, get_log := get_log st @ [url], sleep_log := sleep_log st\<rparr>"
      using Response by simp
    then show ?thesis by blast
  next
    case RequestError
    have "snd (request_attempts net url (a # as) st) =
       st\<lparr>problematic_urls := insert url (problematic_urls st), get_count := get_count st + 1,
          request_log := request_log st, get_log := get_log st @ [url], sleep_log := sleep_log st\<rparr>"
      using RequestError by simp
    then show ?thesis by blast
  next
    case TransientError
    show ?thesis
    proof (cases "a < max_retries - 1")
      case False
      have "snd (request_attempts net url (a # as) st) =
         st\<lparr>problematic_urls := insert url (problematic_urls st), get_count := get_count st + 1,
            request_log := request_log st, get_log := get_log st @ [url], sleep_log := sleep_log st\<rparr>"
        using TransientError False by simp
      then show ?thesis by blast
    next
      case True
      let ?s = "st\<lparr>get_count := get_count st + 1, get_log := get_log st @ [url],
                   sleep_log := sleep_log st @ [base_delay * 2 ^ a]\<rparr>"
      from Cons.IH[of ?s] obtain pu gc rl gl sl where
        "snd (request_attempts net url as ?s) =
           ?s\<lparr>problematic_urls := pu, get_count := gc, request_log := rl, get_log := gl, sleep_log := sl\<rparr>"
        by blast
      then have "snd (request_attempts net url (a # as) st) =
           st\<lparr>problematic_urls := pu, get_count := gc, request_log := rl, get_log := gl, sleep_log := sl\<rparr>"
        using TransientError True by simp
      then show ?thesis by blast
    qed
  qed
qed

lemma make_request_client_only:
  fixes st :: crawler
  shows "\<exists>pu gc rl gl sl. snd (make_request net url st) =
           st\<lparr>problematic_urls := pu, get_count := gc, request_log := rl, get_log := gl, sleep_log := sl\<rparr>"
proof (cases "url \<in> problematic_urls st")
  case True
  have "snd (make_request net url st) =
       st\<lparr>problematic_urls := problematic_urls st, get_count := get_count st,
          request_log := request_log st @ [url], get_log := get_log st, sleep_log := sleep_log st\<rparr>"
    using True by (simp add: make_request_def)
  then show ?thesis by blast
next
  case False
  let ?s = "st\<lparr>request_log := request_log st @ [url]\<rparr>"
  from request_attempts_client_only[of net url "[0..<max_retries]" ?s] obtain pu gc rl gl sl where
    "snd (request_attempts net url [0..<max_retries] ?s) =
       ?s\<lparr>problematic_urls := pu, get_count := gc, request_log := rl, get_log := gl, sleep_log := sl\<rparr>"
    by blast
  then have "snd (make_request net url st) =
       st\<lparr>problematic_urls := pu, get_count := gc, request_log := rl, get_log := gl, sleep_log := sl\<rparr>"
    using False by (simp add: make_request_def)
  then show ?thesis by blast
qed

lemma make_request_queue:
  fixes st :: crawler
  assumes "make_request net url st = (r, st1)"
  shows "url_queue st1 = url_queue st" "max_depth st1 = max_depth st"
    "visited_urls st1 = visited_urls st" "found_documents st1 = found_documents st"
    "base_domain st1 = base_domain st" "processed_log st1 = processed_log st"
    "enqueue_log st1 = enqueue_log st"
proof -
  from make_request_client_only[of net url st] assms obtain pu gc rl gl sl where
    "st1 = st\<lparr>problematic_urls := pu, get_count := gc, request_log := rl, get_log := gl, sleep_log := sl\<rparr>"
    by auto
  then show "url_queue st1 = url_queue st" "max_depth st1 = max_depth st"
    "visited_urls st1 = visited_urls st" "found_documents st1 = found_documents st"
    "base_domain st1 = base_domain st" "processed_log st1 = processed_log st"
    "enqueue_log st1 = enqueue_log st"
    by simp_all
qed


lemma add_document_frame:
  "url_queue (add_document d st) = url_queue st" "max_depth (add_document d st) = max_depth st"
  "visited_urls (add_document d st) = visited_urls st" "base_domain (add_document d st) = base_domain st"
  "processed_log (add_document d st) = processed_log st" "enqueue_log (add_document d st) = enqueue_log st"
  "request_log (add_document d st) = request_log st" "get_log (add_document d st) = get_log st"
  "problematic_urls (add_document d st) = problematic_urls st" "get_count (add_document d st) = get_count st"
  "sleep_log (add_document d st) = sleep_log st"
  by (simp_all add: add_document_def)

lemma header_document_frame:
  "url_queue (header_document url hv st) = url_queue st"
  "max_depth (header_document url hv st) = max_depth st"
  "visited_urls (header_document url hv st) = visited_urls st"
  "base_domain (header_document url hv st) = base_domain st"
  "processed_log (header_document url hv st) = processed_log st"
  "enqueue_log (header_document url hv st) = enqueue_log st"
  "request_log (header_document url hv st) = request_log st"
  "get_log (header_document url hv st) = get_log st"
  "problematic_urls (header_document url hv st) = problematic_urls st"
  "get_count (header_document url hv st) = get_count st"
  "sleep_log (header_document url hv st) = sleep_log st"
  by (simp_all add: header_document_def add_document_frame split: option.splits)

lemma check_headers_frame:
  "url_queue (check_headers_for_documents e url st) = url_queue st"
  "max_depth (check_headers_for_documents e url st) = max_depth st"
  "visited_urls (check_headers_for_documents e url st) = visited_urls st"
  "base_domain (check_headers_for_documents e url st) = base_domain st"
  "processed_log (check_headers_for_documents e url st) = processed_log st"
  "enqueue_log (check_headers_for_documents e url st) = enqueue_log st"
proof -
  obtain r st1 where m: "make_request (env_net e) url st = (r, st1)"
    by (cases "make_request (env_net e) url st")
  note f = make_request_queue[OF m]
  show "url_queue (check_headers_for_documents e url st) = url_queue st"
    by (simp add: check_headers_for_documents_def m f header_document_frame add_document_frame Let_def
          split: option.splits exc.splits)
  show "max_depth (check_headers_for_documents e url st) = max_depth st"
    by (simp add: check_headers_for_documents_def m f header_document_frame add_document_frame Let_def
          split: option.splits exc.splits)
  show "visited_urls (check_headers_for_documents e url st) = visited_urls st"
    by (simp add: check_headers_for_documents_def m f header_document_frame add_document_frame Let_def
          split: option.splits exc.splits)
  show "base_domain (check_headers_for_documents e url st) = base_domain st"
    by (simp add: check_headers_for_documents_def m f header_document_frame add_document_frame Let_def
          split: option.splits exc.splits)
  show "processed_log (check_headers_for_documents e url st) = processed_log st"
    by (simp add: check_headers_for_documents_def m f header_document_frame add_document_frame Let_def
          split: option.splits exc.splits)
  show "enqueue_log (check_headers_for_documents e url st) = enqueue_log st"
    by (simp add: check_headers_for_documents_def m f header_document_frame add_document_frame Let_def
          split: option.splits exc.splits)
qed

lemma document_link_step_frame:
  assumes "document_link_step e base_url ft link st = (ok, st1)"
  shows "url_queue st1 = url_queue st" "max_depth st1 = max_depth st"
    "visited_urls st1 = visited_urls st" "base_domain st1 = base_domain st"
    "processed_log st1 = processed_log st" "enqueue_log st1 = enqueue_log st"
    "request_log st1 = request_log st" "get_log st1 = get_log st"
    "problematic_urls st1 = problematic_urls st" "get_count st1 = get_count st"
    "sleep_log st1 = sleep_log st"
  using assms
  by (auto simp: document_link_step_def add_document_frame split: exc.splits option.splits)

lemma for_each_document_links_frame:
  assumes "for_each (document_link_step e base_url ft) links st = (ok, st1)"
  shows "url_queue st1 = url_queue st \<and> max_depth st1 = max_depth st \<and>
    visited_urls st1 = visited_urls st \<and> base_domain st1 = base_domain st \<and>
    processed_log st1 = processed_log st \<and> enqueue_log st1 = enqueue_log st \<and>
    request_log st1 = request_log st \<and> get_log st1 = get_log st \<and>
    problematic_urls st1 = problematic_urls st \<and> get_count st1 = get_count st \<and>
    sleep_log st1 = sleep_log st"
  using assms
proof (induction links arbitrary: st)
  case Nil
  then show ?case by simp
next
  case (Cons l links)
  obtain b s where step: "document_link_step e base_url ft l st = (b, s)"
    by (cases "document_link_step e base_url ft l st")
  note f = document_link_step_frame[OF step]
  show ?case
  proof (cases b)
    case True
    with Cons.prems step have "for_each (document_link_step e base_url ft) links s = (ok, st1)"
      by simp
    from Cons.IH[OF this] f show ?thesis by simp
  next
    case False
    with Cons.prems step have "st1 = s" by simp
    with f show ?thesis by simp
  qed
qed

lemma find_direct_documents_frame:
  assumes "find_direct_documents e base_url soup st = (ok, st1)"
  shows "url_queue st1 = url_queue st \<and> max_depth st1 = max_depth st \<and>
    visited_urls st1 = visited_urls st \<and> base_domain st1 = base_domain st \<and>
    processed_log st1 = processed_log st \<and> enqueue_log st1 = enqueue_log st \<and>
    request_log st1 = request_log st \<and> get_log st1 = get_log st \<and>
    problematic_urls st1 = problematic_urls st \<and> get_count st1 = get_count st \<and>
    sleep_log st1 = sleep_log st"
proof -
  obtain b s where p: "for_each (document_link_step e base_url ''PDF'')
      (filter (href_has_extension ''.pdf'') soup) st = (b, s)"
    by (cases "for_each (document_link_step e base_url ''PDF'') (filter (href_has_extension ''.pdf'') soup) st")
  note f1 = for_each_document_links_frame[OF p]
  show ?thesis
  proof (cases b)
    case False
    with assms p have "st1 = s" by (simp add: find_direct_documents_def)
    with f1 show ?thesis by simp
  next
    case True
    with assms p have "for_each (document_link_step e base_url ''XLSX'')
      (filter (href_has_extension ''.xlsx'') soup) s = (ok, st1)"
      by (simp add: find_direct_documents_def)
    from for_each_document_links_frame[OF this] f1 show ?thesis by simp
  qed
qed

lemma queue_link_step_frame:
  assumes "queue_link_step e base_url nd link st = (ok, st1)"
  shows "max_depth st1 = max_depth st \<and> visited_urls st1 = visited_urls st \<and>
    base_domain st1 = base_domain st \<and> processed_log st1 = processed_log st \<and>
    found_documents st1 = found_documents st \<and>
    request_log st1 = request_log st \<and> get_log st1 = get_log st \<and>
    problematic_urls st1 = problematic_urls st \<and> get_count st1 = get_count st \<and>
    sleep_log st1 = sleep_log st"
  using assms
  by (auto simp: queue_link_step_def split: option.splits if_splits)

lemma queue_link_step_queue:
  assumes "queue_link_step e base_url nd link st = (ok, st1)"
  shows "\<exists>new. url_queue st1 = url_queue st @ new \<and> enqueue_log st1 = enqueue_log st @ map fst new \<and>
           (\<forall>p \<in> set new. snd p = nd \<and> is_same_domain e (base_domain st) (fst p))"
proof (cases "url_queue st1 = url_queue st \<and> enqueue_log st1 = enqueue_log st")
  case True
  then show ?thesis by (intro exI[of _ "[]"]) simp
next
  case False
  with assms obtain link_url where
    "url_queue st1 = url_queue st @ [(link_url, nd)]" "enqueue_log st1 = enqueue_log st @ [link_url]"
    "is_same_domain e (base_domain st) link_url"
    by (auto simp: queue_link_step_def split: option.splits if_splits)
  then show ?thesis by (intro exI[of _ "[(link_url, nd)]"]) simp
qed

lemma for_each_queue_links:
  assumes "for_each (queue_link_step e base_url nd) links st = (ok, st1)"
  shows "max_depth st1 = max_depth st \<and> visited_urls st1 = visited_urls st \<and>
    base_domain st1 = base_domain st \<and> processed_log st1 = processed_log st \<and>
    found_documents st1 = found_documents st \<and>
    request_log st1 = request_log st \<and> get_log st1 = get_log st \<and>
    problematic_urls st1 = problematic_urls st \<and> get_count st1 = get_count st \<and>
    sleep_log st1 = sleep_log st \<and>
    (\<exists>new. url_queue st1 = url_queue st @ new \<and> enqueue_log st1 = enqueue_log st @ map fst new \<and>
           (\<forall>p \<in> set new. snd p = nd \<and> is_same_domain e (base_domain st) (fst p)))"
  using assms
proof (induction links arbitrary: st)
  case Nil
  then show ?case by simp
next
  case (Cons l links)
  obtain b s where step: "queue_link_step e base_url nd l st = (b, s)"
    by (cases "queue_link_step e base_url nd l st")
  note f = queue_link_step_frame[OF step]
  from queue_link_step_queue[OF step] obtain new1 where
    n1: "url_queue s = url_queue st @ new1" "enqueue_log s = enqueue_log st @ map fst new1"
       "\<forall>p \<in> set new1. snd p = nd \<and> is_same_domain e (base_domain st) (fst p)"
    by blast
  show ?case
  proof (cases b)
    case False
    with Cons.prems step have "st1 = s" by simp
    with f n1 show ?thesis by blast
  next
    case True
    with Cons.prems step have "for_each (queue_link_step e base_url nd) links s = (ok, st1)"
      by simp
    from Cons.IH[OF this] obtain new2 where
      g: "max_depth st1 = max_depth s \<and> visited_urls st1 = visited_urls s \<and>
    base_domain st1 = base_domain s \<and> processed_log st1 = processed_log s \<and>
    found_documents st1 = found_documents s \<and>
    request_log st1 = request_log s \<and> get_log st1 = get_log s \<and>
    problematic_urls st1 = problematic_urls s \<and> get_count st1 = get_count s \<and>
    sleep_log st1 = sleep_log s"
      and n2: "url_queue st1 = url_queue s @ new2" "enqueue_log st1 = enqueue_log s @ map fst new2"
       "\<forall>p \<in> set new2. snd p = nd \<and> is_same_domain e (base_domain s) (fst p)"
      by blast
    have "url_queue st1 = url_queue st @ (new1 @ new2)"
      "enqueue_log st1 = enqueue_log st @ map fst (new1 @ new2)"
      "\<forall>p \<in> set (new1 @ new2). snd p = nd \<and> is_same_domain e (base_domain st) (fst p)"
      using n1 n2 f by auto
    with f g show ?thesis by (metis (no_types, lifting))
  qed
qed

lemma process_url_queue:
  "max_depth (process_url_from_queue e url d st) = max_depth st \<and>
   (\<exists>new. url_queue (process_url_from_queue e url d st) = url_queue st @ new \<and>
      (new \<noteq> [] \<longrightarrow> d < max_depth st) \<and>
      (\<forall>p \<in> set new. snd p = d + 1))"
proof -
  obtain r st1 where m: "make_request (env_net e) url st = (r, st1)"
    by (cases "make_request (env_net e) url st")
  note f1 = make_request_queue[OF m]
  have triv: "max_depth st1 = max_depth st \<and>
     (\<exists>new. url_queue st1 = url_queue st @ new \<and> (new \<noteq> [] \<longrightarrow> d < max_depth st) \<and>
      (\<forall>p \<in> set new. snd p = d + 1))"
    using f1 by simp
  show ?thesis
  proof (cases r)
    case None
    with m triv show ?thesis by (simp add: process_url_from_queue_def)
  next
    case (Some resp)
    show ?thesis
    proof (cases "resp_anchors resp")
      case None
      with m Some triv show ?thesis by (simp add: process_url_from_queue_def)
    next
      case (Some soup)
      let ?st2 = "check_headers_for_documents e url st1"
      note f2 = check_headers_frame[of e url st1]
      obtain ok st3 where fd: "find_direct_documents e url soup ?st2 = (ok, st3)"
        by (cases "find_direct_documents e url soup ?st2")
      note f3 = find_direct_documents_frame[OF fd]
      have k3: "max_depth st3 = max_depth st" "url_queue st3 = url_queue st"
        using f1 f2 f3 by simp_all
      show ?thesis
      proof (cases "ok \<and> d < max_depth st3")
        case False
        then have "process_url_from_queue e url d st = st3"
          using m \<open>r = Some resp\<close> Some fd by (cases ok) (auto simp: process_url_from_queue_def)
        with k3 show ?thesis by simp
      next
        case True
        obtain ok4 st4 where q: "find_and_queue_links e url soup d st3 = (ok4, st4)"
          by (cases "find_and_queue_links e url soup d st3")
        then have "for_each (queue_link_step e url (d + 1)) (filter (\<lambda>link. a_href link \<noteq> None) soup) st3
            = (ok4, st4)"
          by (simp add: find_and_queue_links_def)
        from for_each_queue_links[OF this] obtain new where
          "max_depth st4 = max_depth st3" "url_queue st4 = url_queue st3 @ new"
          "\<forall>p \<in> set new. snd p = d + 1"
          by blast
        moreover have "process_url_from_queue e url d st = st4"
          using m \<open>r = Some resp\<close> Some fd True q by (simp add: process_url_from_queue_def)
        ultimately show ?thesis using k3 True by auto
      qed
    qed
  qed
qed

lemma queue_weight_pop:
  assumes "url_queue st = (u, d) # rest"
    and "max_depth st' = max_depth st"
    and "url_queue st' = rest @ new"
    and "new \<noteq> [] \<longrightarrow> d < max_depth st"
    and "\<forall>p \<in> set new. snd p = d + 1"
  shows "(queue_weight st', queue_weight st) \<in> mult less_than"
proof -
  let ?w = "\<lambda>(url, depth). max_depth st - depth"
  let ?I = "mset (map ?w rest)"
  let ?K = "mset (map ?w new)"
  have a: "queue_weight st' = ?I + ?K"
    using assms(2,3) by (simp add: queue_weight_def)
  have b: "queue_weight st = ?I + {#max_depth st - d#}"
    using assms(1) by (simp add: queue_weight_def)
  have "\<forall>k \<in> set_mset ?K. \<exists>j \<in> set_mset {#max_depth st - d#}. (k, j) \<in> less_than"
  proof
    fix k assume "k \<in> set_mset ?K"
    then obtain p where p: "p \<in> set new" "k = ?w p" by auto
    with assms(5) have "k = max_depth st - (d + 1)" by (cases p) auto
    moreover from p(1) assms(4) have "d < max_depth st" by auto
    ultimately show "\<exists>j \<in> set_mset {#max_depth st - d#}. (k, j) \<in> less_than" by simp
  qed
  then have "(?I + ?K, ?I + {#max_depth st - d#}) \<in> mult less_than"
    by (intro one_step_implies_mult) simp_all
  with a b show ?thesis by simp
qed

text \<open>
  The loop \<open>while self.url_queue\<close> of \<open>find_annual_reports\<close>: pop the head, skip it when
  visited, otherwise process it and mark it visited.
\<close>

function crawl_loop :: "env \<Rightarrow> crawler \<Rightarrow> crawler" where
  "crawl_loop e st =
     (case url_queue st of
        [] \<Rightarrow> st
      | (current_url, current_depth) # rest \<Rightarrow>
          if current_url \<in> visited_urls st
          then crawl_loop e (st\<lparr> url_queue := rest \<rparr>)
          else let st1 = process_url_from_queue e current_url current_depth
                           (st\<lparr> url_queue := rest,
                               processed_log := processed_log st @ [current_url] \<rparr>)
               in crawl_loop e (st1\<lparr> visited_urls := insert current_url (visited_urls st1) \<rparr>))"
  by pat_completeness auto
termination
proof (relation "inv_image (mult less_than) (\<lambda>(e, st). queue_weight st)")
  show "wf (inv_image (mult less_than) (\<lambda>(e, st). queue_weight st))"
    by (intro wf_inv_image wf_mult wf_less_than)
next
  fix e :: env and st :: crawler and x21 x22 current_url current_depth
  assume q: "url_queue st = x21 # x22" and x: "(current_url, current_depth) = x21"
  then have "url_queue st = (current_url, current_depth) # x22" by simp
  then have "(queue_weight (st\<lparr>url_queue := x22\<rparr>), queue_weight st) \<in> mult less_than"
    by (rule queue_weight_pop[where new = "[]"]) simp_all
  then show "((e, st\<lparr>url_queue := x22\<rparr>), e, st)
       \<in> inv_image (mult less_than) (\<lambda>(e, st). queue_weight st)"
    by simp
next
  fix e :: env and st :: crawler and x21 x22 current_url current_depth st1
  assume q: "url_queue st = x21 # x22" and x: "(current_url, current_depth) = x21"
    and s: "st1 = process_url_from_queue e current_url current_depth
              (st\<lparr>url_queue := x22, processed_log := processed_log st @ [current_url]\<rparr>)"
  let ?s0 = "st\<lparr>url_queue := x22, processed_log := processed_log st @ [current_url]\<rparr>"
  from q x have q': "url_queue st = (current_url, current_depth) # x22" by simp
  from process_url_queue[of e current_url current_depth ?s0] s obtain new where
    n: "max_depth st1 = max_depth st" "url_queue st1 = x22 @ new"
       "new \<noteq> [] \<longrightarrow> current_depth < max_depth st" "\<forall>p \<in> set new. snd p = current_depth + 1"
    by auto
  have "(queue_weight (st1\<lparr>visited_urls := insert current_url (visited_urls st1)\<rparr>), queue_weight st)
          \<in> mult less_than"
    using q' by (rule queue_weight_pop[where new = new]) (simp_all add: n)
  then show "((e, st1\<lparr>visited_urls := insert current_url (visited_urls st1)\<rparr>), e, st)
       \<in> inv_image (mult less_than) (\<lambda>(e, st). queue_weight st)"
    by simp
qed

text \<open>
  \<open>find_annual_reports\<close>: clear the queue, the visited set and the documents, derive the
  base domain from the seed, queue the seed at depth 0 and run the loop.  An exception
  while parsing the seed is caught and gives the empty list.  The logs are restarted, so
  that they describe this crawl.
\<close>

definition find_annual_reports :: "env \<Rightarrow> string \<Rightarrow> crawler \<Rightarrow> document list \<times> crawler" where
  "find_annual_reports e reports_url st =
     (let st0 = st\<lparr> url_queue := [], visited_urls := {}, found_documents := [],
                    processed_log := [], enqueue_log := [],
                    request_log := [], get_log := [], sleep_log := [] \<rparr>
      in case extract_base_domain e reports_url of
           Raised \<Rightarrow> ([], st0)
         | Returned domain \<Rightarrow>
             let st1 = crawl_loop e (st0\<lparr> base_domain := Some domain,
                                         url_queue := [(reports_url, 0)] \<rparr>)
             in (found_documents st1, st1))"

text \<open>The state of a new \<open>HTMLPageProcessor\<close>.\<close>

definition new_crawler :: crawler where
  "new_crawler =
     \<lparr> problematic_urls = {}, get_count = 0, request_log = [], get_log = [], sleep_log = [],
       url_queue = [], visited_urls = {}, found_documents = [], max_depth = 2,
       base_domain = None, processed_log = [], enqueue_log = [] \<rparr>"

subsection \<open>A concrete environment for the examples\<close>

text \<open>
  \<open>urlparse(url).netloc\<close> on a URL without blanks or control characters, following
  \<open>urllib.parse.urlsplit\<close>: a scheme (a letter, then letters, digits, \<open>+\<close>, \<open>-\<close>, \<open>.\<close>) up to
  the first colon is split off; if \<open>//\<close> follows, the network location runs up to the
  first \<open>/\<close>, \<open>?\<close> or \<open>#\<close>, and unbalanced brackets raise \<open>ValueError\<close>; otherwise it is
  empty.  It contains the user information and the port, if any.
\<close>

definition is_ascii_letter :: "char \<Rightarrow> bool" where
  "is_ascii_letter c =
     (let n = (of_char c :: nat) in (65 \<le> n \<and> n \<le> 90) \<or> (97 \<le> n \<and> n \<le> 122))"

definition is_scheme_char :: "char \<Rightarrow> bool" where
  "is_scheme_char c =
     (is_ascii_letter c \<or> is_digit c \<or> c = CHR ''+'' \<or> c = CHR ''-'' \<or> c = CHR ''.'')"

definition after_scheme :: "string \<Rightarrow> string" where
  "after_scheme url =
     (let pre = takeWhile (\<lambda>c. c \<noteq> CHR '':'') url
      in if length pre < length url \<and> pre \<noteq> [] \<and> is_ascii_letter (hd pre) \<and>
            list_all is_scheme_char pre
         then drop (length pre + 1) url
         else url)"

definition py_netloc :: "string \<Rightarrow> string option" where
  "py_netloc url =
     (let r = after_scheme url
      in if take 2 r = ''//''
         then let netloc = takeWhile (\<lambda>c. c \<noteq> CHR ''/'' \<and> c \<noteq> CHR ''?'' \<and> c \<noteq> CHR ''#'') (drop 2 r)
              in if (CHR ''['' \<in> set netloc \<and> CHR '']'' \<notin> set netloc) \<or>
                    (CHR '']'' \<in> set netloc \<and> CHR ''['' \<notin> set netloc)
                 then None else Some netloc
         else Some [])"

text \<open>
  The path of such a URL without parameters and percent escapes: what follows the
  network location, up to the first \<open>?\<close> or \<open>#\<close>.
\<close>

definition py_path :: "string \<Rightarrow> string option" where
  "py_path url =
     (case py_netloc url of
        None \<Rightarrow> None
      | Some netloc \<Rightarrow>
          let r = after_scheme url;
              r = (if take 2 r = ''//'' then drop (2 + length netloc) r else r)
          in Some (takeWhile (\<lambda>c. c \<noteq> CHR ''?'' \<and> c \<noteq> CHR ''#'') r))"

text \<open>
  The host of a network location, as the standard library reads it (\<open>hostname\<close>): what
  follows the last \<open>@\<close>, without the port, in lower case.  The registrable domain of the
  specification is the last two dot-separated labels of the host.
\<close>

definition host_of_netloc :: "string \<Rightarrow> string" where
  "host_of_netloc netloc =
     (let hostinfo = rev (takeWhile (\<lambda>c. c \<noteq> CHR ''@'') (rev netloc))
      in lower (takeWhile (\<lambda>c. c \<noteq> CHR '':'') hostinfo))"

definition registrable_domain :: "string \<Rightarrow> string" where
  "registrable_domain host =
     (let parts = split_on CHR ''.'' host
      in if length parts \<ge> 2 then join_dot (drop (length parts - 2) parts) else host)"

text \<open>
  An environment for the examples: \<open>urljoin\<close> of an absolute link is the link itself, the
  other functions are the ones above, and the network is given.
\<close>

definition example_env :: "network \<Rightarrow> env" where
  "example_env net =
     \<lparr> env_net = net, env_urljoin = (\<lambda>base href. Some href),
       env_netloc = py_netloc, env_path = py_path \<rparr>"

subsection \<open>What holds at every turn of the crawl loop\<close>

text \<open>
  No URL was handed to the page processor twice, the processed URLs are the visited
  ones, \<open>make_request\<close> was called at most twice per processed URL, and \<open>session.get\<close> at
  most three times per call of \<open>make_request\<close>.
\<close>

definition crawl_inv :: "crawler \<Rightarrow> bool" where
  "crawl_inv st \<longleftrightarrow>
     distinct (processed_log st) \<and> set (processed_log st) = visited_urls st \<and>
     (\<forall>u. count_list (request_log st) u \<le> 2 * count_list (processed_log st) u) \<and>
     (\<forall>u. count_list (get_log st) u \<le> 3 * count_list (request_log st) u)"


text \<open>Networks and pages for the examples.\<close>

definition plain_page :: response where
  "plain_page =
     \<lparr> resp_disposition = [], resp_description = [], resp_content_type = ''text/html'',
       resp_anchors = Some [] \<rparr>"


text \<open>
  A reports page that links to one annual report, which the server delivers as a PDF.
\<close>

definition report_page :: response where
  "report_page =
     \<lparr> resp_disposition = [], resp_description = [], resp_content_type = ''text/html'',
       resp_anchors =
         Some [\<lparr> a_href = Some ''https://ir.example.com/files/annual_report_2020.pdf'',
                 a_text = ''Annual Report 2020'', a_title = [] \<rparr>] \<rparr>"

definition pdf_response :: response where
  "pdf_response =
     \<lparr> resp_disposition = [], resp_description = [], resp_content_type = ''application/pdf'',
       resp_anchors = Some [] \<rparr>"

definition report_net :: network where
  "report_net n url =
     (if url = ''https://ir.example.com/reports'' then Response report_page
      else if url = ''https://ir.example.com/files/annual_report_2020.pdf'' then Response pdf_response
      else RequestError)"

text \<open>
  A page at \<open>https://a.example.com/x\<close> with three links: to another site, to another site
  with user information in front of the host, and to a subdomain of the seed's domain.
\<close>

definition links_page :: response where
  "links_page =
     \<lparr> resp_disposition = [], resp_description = [], resp_content_type = ''text/html'',
       resp_anchors =
         Some [\<lparr> a_href = Some ''https://evil.com/results'', a_text = ''Results'', a_title = [] \<rparr>,
               \<lparr> a_href = Some ''https://a.example.com:x@evil.com/results'', a_text = ''Results'',
                 a_title = [] \<rparr>,
               \<lparr> a_href = Some ''https://investors.example.com/y'', a_text = ''Investors'',
                 a_title = [] \<rparr>] \<rparr>"

definition links_net :: network where
  "links_net n url =
     (if url = ''https://a.example.com/x'' then Response links_page
      else Response plain_page)"

section \<open>Properties of year extraction\<close>

lemma findall_year_tokens:
  "m \<in> set (findall_year t) \<Longrightarrow>
     \<exists>c d. m = [CHR ''2'', CHR ''0'', c, d] \<and> is_digit c \<and> is_digit d"
  by (induction t rule: findall_year.induct) (auto split: if_splits)

lemma digit_val_range: "is_digit c \<Longrightarrow> 0 \<le> digit_val c \<and> digit_val c \<le> 9"
  by (auto simp: is_digit_def digit_val_def Let_def)

lemma digit_val_20: "digit_val (CHR ''2'') = 2" "digit_val (CHR ''0'') = 0"
  by (simp_all add: digit_val_def)

lemma year_token_range:
  "is_digit c \<Longrightarrow> is_digit d \<Longrightarrow>
     2000 \<le> int_of_digits [CHR ''2'', CHR ''0'', c, d] \<and>
     int_of_digits [CHR ''2'', CHR ''0'', c, d] \<le> 2099"
  using digit_val_range[of c] digit_val_range[of d]
  by (simp add: int_of_digits_def digit_val_20)

lemma findall_year_in_range:
  "m \<in> set (findall_year t) \<Longrightarrow> 2000 \<le> int_of_digits m \<and> int_of_digits m \<le> 2099"
  using findall_year_tokens[of m t] year_token_range by blast

lemma filter_valid_years_id:
  "filter (\<lambda>y. 2000 \<le> int_of_digits y \<and> int_of_digits y \<le> 2099) (findall_year t) = findall_year t"
  by (rule filter_True) (simp add: findall_year_in_range)

lemma extract_year_unfold:
  "extract_year_from_text t =
     (let ms = findall_year t
      in if ms = [] then None
         else let v = map int_of_digits ms
              in if v = [] then None else if length v > 1 then Some (last v) else Some (hd v))"
  by (simp only: extract_year_from_text_def Let_def filter_valid_years_id)

lemma extract_year_last:
  "extract_year_from_text t =
     (if findall_year t = [] then None else Some (int_of_digits (last (findall_year t))))"
proof (cases "findall_year t")
  case Nil
  then show ?thesis by (simp add: extract_year_unfold)
next
  case (Cons m ms)
  then show ?thesis
    by (cases ms) (simp_all add: extract_year_unfold Let_def last_map)
qed

lemma has_year_token_short: "length t < 4 \<Longrightarrow> \<not> has_year_token t"
  unfolding has_year_token_def str_in_def
  using sublist_length_le by fastforce

lemma has_year_token_Cons:
  "has_year_token (a # b # c # d # rest) \<longleftrightarrow>
     (a = CHR ''2'' \<and> b = CHR ''0'' \<and> is_digit c \<and> is_digit d) \<or> has_year_token (b # c # d # rest)"
  unfolding has_year_token_def str_in_def
  by (subst sublist_Cons_right) (simp, blast)

lemma findall_year_empty_iff: "findall_year t = [] \<longleftrightarrow> \<not> has_year_token t"
proof (induction t rule: findall_year.induct)
  case (1 a b c d rest)
  show ?case
  proof (cases "a = CHR ''2'' \<and> b = CHR ''0'' \<and> is_digit c \<and> is_digit d")
    case True
    then show ?thesis by (simp add: has_year_token_Cons)
  next
    case False
    have "findall_year (a # b # c # d # rest) = findall_year (b # c # d # rest)"
      using False by auto
    moreover have "has_year_token (a # b # c # d # rest) = has_year_token (b # c # d # rest)"
      using False has_year_token_Cons[of a b c d rest] by blast
    ultimately show ?thesis using 1(2)[OF False] by simp
  qed
qed (simp_all add: has_year_token_short)

lemma findall_year_last_split:
  "findall_year t \<noteq> [] \<Longrightarrow>
     \<exists>pre post. t = pre @ last (findall_year t) @ post \<and> findall_year post = []"
proof (induction t rule: findall_year.induct)
  case (1 a b c d rest)
  show ?case
  proof (cases "a = CHR ''2'' \<and> b = CHR ''0'' \<and> is_digit c \<and> is_digit d")
    case True
    show ?thesis
    proof (cases "findall_year rest = []")
      case e: True
      with True have "a # b # c # d # rest = [] @ last (findall_year (a # b # c # d # rest)) @ rest"
        by simp
      with e show ?thesis by blast
    next
      case ne: False
      from 1(1)[OF True ne] obtain pre post where
        "rest = pre @ last (findall_year rest) @ post" "findall_year post = []" by blast
      with True ne
      have "a # b # c # d # rest =
              ([a, b, c, d] @ pre) @ last (findall_year (a # b # c # d # rest)) @ post"
        by simp
      with \<open>findall_year post = []\<close> show ?thesis by blast
    qed
  next
    case False
    with 1(3) have ne: "findall_year (b # c # d # rest) \<noteq> []" by auto
    from 1(2)[OF False ne] obtain pre post where
      "b # c # d # rest = pre @ last (findall_year (b # c # d # rest)) @ post"
      "findall_year post = []" by blast
    with False
    have "a # b # c # d # rest = (a # pre) @ last (findall_year (a # b # c # d # rest)) @ post"
      by auto
    with \<open>findall_year post = []\<close> show ?thesis by blast
  qed
qed simp_all

text \<open>
  Claim C3.  Year extraction returns the last match of the left-to-right scan for tokens
  \<open>20dd\<close>, every such token denotes a year in the inclusive range 2000..2099 (so the range
  filter of the code never drops a match), the returned token is followed by no further
  token, and the result is none exactly when the text holds no token at all.  On the
  three texts of the specification the results are 2018, none and 2021.
\<close>

theorem extract_year_last_match:
  "extract_year_from_text t =
     (if findall_year t = [] then None else Some (int_of_digits (last (findall_year t))))
   \<and> (\<forall>m \<in> set (findall_year t). 2000 \<le> int_of_digits m \<and> int_of_digits m \<le> 2099)
   \<and> (extract_year_from_text t = None \<longleftrightarrow> \<not> has_year_token t)
   \<and> (\<forall>y. extract_year_from_text t = Some y \<longrightarrow>
         2000 \<le> y \<and> y \<le> 2099 \<and>
         (\<exists>pre tok post. t = pre @ tok @ post \<and> tok \<in> set (findall_year t) \<and>
             int_of_digits tok = y \<and> \<not> has_year_token post))
   \<and> extract_year_from_text ''20190326-Annual_Report_2018.pdf'' = Some 2018
   \<and> extract_year_from_text ''Report.pdf'' = None
   \<and> extract_year_from_text ''AR_2021.xlsx'' = Some 2021"
proof -
  have a: "extract_year_from_text t =
     (if findall_year t = [] then None else Some (int_of_digits (last (findall_year t))))"
    by (rule extract_year_last)
  have b: "\<forall>m \<in> set (findall_year t). 2000 \<le> int_of_digits m \<and> int_of_digits m \<le> 2099"
    using findall_year_in_range by blast
  have c: "extract_year_from_text t = None \<longleftrightarrow> \<not> has_year_token t"
    by (simp add: a findall_year_empty_iff)
  have d: "\<forall>y. extract_year_from_text t = Some y \<longrightarrow>
         2000 \<le> y \<and> y \<le> 2099 \<and>
         (\<exists>pre tok post. t = pre @ tok @ post \<and> tok \<in> set (findall_year t) \<and>
             int_of_digits tok = y \<and> \<not> has_year_token post)"
  proof (intro allI impI)
    fix y assume "extract_year_from_text t = Some y"
    with a have ne: "findall_year t \<noteq> []" and y: "y = int_of_digits (last (findall_year t))"
      by (auto split: if_splits)
    from ne have mem: "last (findall_year t) \<in> set (findall_year t)" by simp
    from findall_year_last_split[OF ne] obtain pre post where
      sp: "t = pre @ last (findall_year t) @ post" and "findall_year post = []" by blast
    then have "\<not> has_year_token post" by (simp add: findall_year_empty_iff)
    with sp mem y b show "2000 \<le> y \<and> y \<le> 2099 \<and>
         (\<exists>pre tok post. t = pre @ tok @ post \<and> tok \<in> set (findall_year t) \<and>
             int_of_digits tok = y \<and> \<not> has_year_token post)"
      by blast
  qed
  have e1: "extract_year_from_text ''20190326-Annual_Report_2018.pdf'' = Some 2018"
    by code_simp
  have e2: "extract_year_from_text ''Report.pdf'' = None"
    by code_simp
  have e3: "extract_year_from_text ''AR_2021.xlsx'' = Some 2021"
    by code_simp
  from a b c d e1 e2 e3 show ?thesis by blast
qed

theorem extract_year_last_match_witness:
  "extract_year_from_text ''FY2019_restated_2020.pdf'' = Some 2020
   \<and> (\<exists>pre tok post. ''FY2019_restated_2020.pdf'' = pre @ tok @ post \<and>
         int_of_digits tok = 2020 \<and> \<not> has_year_token post)"
proof -
  have h: "extract_year_from_text ''FY2019_restated_2020.pdf'' = Some 2020" by code_simp
  with extract_year_last_match[of "''FY2019_restated_2020.pdf''"] show ?thesis by blast
qed

section \<open>Quarterly markers take precedence\<close>

lemma list_ex_quarterly:
  "k \<in> set quarterly_keywords \<Longrightarrow> P k \<Longrightarrow> list_ex P quarterly_keywords"
  by (auto simp: list_ex_iff)

lemma lower_or_empty_Some: "str_in k (lower u) \<Longrightarrow> k \<noteq> [] \<Longrightarrow> str_in k (lower_or_empty (Some u))"
  by (cases u) (auto simp: lower_or_empty_def str_in_def lower_def)

lemma quarterly_keywords_nonempty: "k \<in> set quarterly_keywords \<Longrightarrow> k \<noteq> []"
  by (auto simp: quarterly_keywords_def)

text \<open>
  Claim C2.  Whenever a quarterly keyword occurs (as a substring, after lower-casing) in
  the link text, in the URL that is checked (the URL passed, or the link's \<open>href\<close> when
  none is passed) or in the file name, \<open>_is_annual_report\<close> returns false, whatever the
  other arguments and whatever annual keywords are present.
\<close>

theorem quarterly_rejection_precedence:
  assumes k: "k \<in> set quarterly_keywords"
    and occ: "(\<exists>l. link = Some l \<and> str_in k (lower (a_text l)))
            \<or> (\<exists>u. url = Some u \<and> str_in k (lower u))
            \<or> (\<exists>l h. link = Some l \<and> url = None \<and> a_href l = Some h \<and> str_in k (lower h))
            \<or> (\<exists>f. filename = Some f \<and> str_in k (lower f))"
  shows "\<not> is_annual_report txt url filename link"
proof -
  from k have ne: "k \<noteq> []" by (rule quarterly_keywords_nonempty)
  from occ consider
      (in_text) l where "link = Some l" "str_in k (lower (a_text l))"
    | (in_url) u where "url = Some u" "str_in k (lower u)"
    | (in_href) l h where "link = Some l" "url = None" "a_href l = Some h" "str_in k (lower h)"
    | (in_file) f where "filename = Some f" "str_in k (lower f)"
    by blast
  then show ?thesis
  proof cases
    case in_text
    then have "is_quarter_report link u'" for u'
      unfolding is_quarter_report_def Let_def
      by (intro list_ex_quarterly[OF k]) simp
    then show ?thesis by (simp add: is_annual_report_def Let_def)
  next
    case in_url
    from in_url(2) ne have "str_in k (lower_or_empty (Some u))" by (rule lower_or_empty_Some)
    then have "is_quarter_report link (Some u)"
      unfolding is_quarter_report_def Let_def
      by (intro list_ex_quarterly[OF k]) simp
    with in_url(1) show ?thesis by (cases link) (simp_all add: is_annual_report_def Let_def)
  next
    case in_href
    from in_href(4) ne have "str_in k (lower_or_empty (Some h))" by (rule lower_or_empty_Some)
    then have "is_quarter_report link (Some h)"
      unfolding is_quarter_report_def Let_def
      by (intro list_ex_quarterly[OF k]) simp
    with in_href(1,2,3) show ?thesis by (simp add: is_annual_report_def Let_def)
  next
    case in_file
    from in_file(2) ne have s: "str_in k (lower_or_empty (Some f))" by (rule lower_or_empty_Some)
    from in_file(2) ne have "f \<noteq> []" by (auto simp: str_in_def lower_def)
    then have t: "truthy_str filename" using in_file(1) by (simp add: truthy_str_def)
    from s in_file(1) have "list_ex (\<lambda>keyword. str_in keyword (lower_or_empty filename)) quarterly_keywords"
      by (intro list_ex_quarterly[OF k]) simp
    with t show ?thesis by (simp add: is_annual_report_def Let_def)
  qed
qed

theorem quarterly_rejection_precedence_witness:
  "''q3'' \<in> set quarterly_keywords
   \<and> str_in ''q3'' (lower ''https://ir.example.com/Annual_Report_Q3_2021.pdf'')
   \<and> str_in ''annual'' (lower ''https://ir.example.com/Annual_Report_Q3_2021.pdf'')
   \<and> \<not> is_annual_report None (Some ''https://ir.example.com/Annual_Report_Q3_2021.pdf'') None
         (Some \<lparr>a_href = Some ''Annual_Report_Q3_2021.pdf'', a_text = ''Annual Report'', a_title = ''''\<rparr>)
   \<and> is_annual_report None (Some ''https://ir.example.com/Annual_Report_2021.pdf'') None
         (Some \<lparr>a_href = Some ''Annual_Report_2021.pdf'', a_text = ''Annual Report'', a_title = ''''\<rparr>)"
proof -
  have k: "''q3'' \<in> set quarterly_keywords" by (simp add: quarterly_keywords_def)
  have q: "str_in ''q3'' (lower ''https://ir.example.com/Annual_Report_Q3_2021.pdf'')"
    by code_simp
  have a: "str_in ''annual'' (lower ''https://ir.example.com/Annual_Report_Q3_2021.pdf'')"
    by code_simp
  have p: "is_annual_report None (Some ''https://ir.example.com/Annual_Report_2021.pdf'') None
         (Some \<lparr>a_href = Some ''Annual_Report_2021.pdf'', a_text = ''Annual Report'', a_title = ''''\<rparr>)"
    by code_simp
  from quarterly_rejection_precedence[OF k, of _ "Some ''https://ir.example.com/Annual_Report_Q3_2021.pdf''"] q
  have "\<not> is_annual_report None (Some ''https://ir.example.com/Annual_Report_Q3_2021.pdf'') None
         (Some \<lparr>a_href = Some ''Annual_Report_Q3_2021.pdf'', a_text = ''Annual Report'', a_title = ''''\<rparr>)"
    by blast
  with k q a p show ?thesis by blast
qed

section \<open>Properties of the score\<close>

lemma str_in_dot_split:
  assumes "k \<noteq> []" "CHR ''.'' \<notin> set k"
  shows "str_in k (b @ CHR ''.'' # e) \<longleftrightarrow> str_in k b \<or> str_in k e"
proof -
  have p: "\<not> prefix k (CHR ''.'' # e)"
    using assms by (cases k) auto
  have "(\<exists>k1 k2. k = k1 @ k2 \<and> suffix k1 b \<and> prefix k2 (CHR ''.'' # e)) \<Longrightarrow> sublist k b"
  proof -
    assume "\<exists>k1 k2. k = k1 @ k2 \<and> suffix k1 b \<and> prefix k2 (CHR ''.'' # e)"
    then obtain k1 k2 where k: "k = k1 @ k2" "suffix k1 b" "prefix k2 (CHR ''.'' # e)" by blast
    have "k2 = []"
    proof (cases k2)
      case (Cons x xs)
      with k(3) have "x = CHR ''.''" by simp
      with Cons k(1) assms(2) show ?thesis by simp
    qed simp
    with k show "sublist k b" by simp
  qed
  then show ?thesis
    unfolding str_in_def
    by (auto simp: sublist_append sublist_Cons_right p)
qed

lemma quarterly_penalty_shift: "quarterly_penalty t u s = s + quarterly_penalty t u 0"
  by (simp add: quarterly_penalty_def score_quarterly_keywords_def)

lemma score_parts:
  "calculate_report_score r =
     file_bonus (lower (doc_url r))
     + priority_bonus 0 priority_keywords (lower (doc_title r)) (lower (doc_url r))
     + title_bonus (lower (doc_title r))
     + quarterly_penalty (lower (doc_title r)) (lower (doc_url r)) 0"
  unfolding calculate_report_score_def Let_def
  by (subst quarterly_penalty_shift) (simp add: file_bonus_def title_bonus_def)

lemma priority_bonus_cong:
  "(\<And>k. k \<in> set ks \<Longrightarrow> (str_in k t \<or> str_in k u) = (str_in k t' \<or> str_in k u')) \<Longrightarrow>
     priority_bonus i ks t u = priority_bonus i ks t' u'"
  by (induction ks arbitrary: i) auto

lemma quarterly_penalty_cong:
  "(\<And>k. k \<in> set score_quarterly_keywords \<Longrightarrow>
        (str_in k t \<or> str_in k u) = (str_in k t' \<or> str_in k u')) \<Longrightarrow>
     quarterly_penalty t u s = quarterly_penalty t' u' s"
  unfolding quarterly_penalty_def
  by (rule foldl_cong) auto

lemma score_keywords_vs_extension:
  "list_all (\<lambda>k. k \<noteq> [] \<and> CHR ''.'' \<notin> set k \<and> \<not> str_in k ''xlsx'' \<and> \<not> str_in k ''pdf'')
     (priority_keywords @ score_quarterly_keywords)"
  by code_simp

lemma keyword_ignores_extension:
  assumes "k \<in> set priority_keywords \<union> set score_quarterly_keywords"
  shows "str_in k (b @ ''.xlsx'') = str_in k b" "str_in k (b @ ''.pdf'') = str_in k b"
proof -
  from assms score_keywords_vs_extension
  have k: "k \<noteq> []" "CHR ''.'' \<notin> set k" "\<not> str_in k ''xlsx''" "\<not> str_in k ''pdf''"
    by (auto simp: list_all_iff)
  show "str_in k (b @ ''.xlsx'') = str_in k b"
    using str_in_dot_split[OF k(1,2), of b "''xlsx''"] k(3) by simp
  show "str_in k (b @ ''.pdf'') = str_in k b"
    using str_in_dot_split[OF k(1,2), of b "''pdf''"] k(4) by simp
qed

lemma file_bonus_xlsx: "file_bonus (b @ ''.xlsx'') = 200"
  by (simp add: file_bonus_def endswith_def suffix_def)

lemma file_bonus_pdf: "file_bonus (b @ ''.pdf'') = 100"
  by (simp add: file_bonus_def endswith_def suffix_to_prefix)

lemma xlsx_vs_pdf:
  assumes "lower ex = ''.xlsx''" "lower ep = ''.pdf''"
  shows "calculate_report_score (r\<lparr>doc_url := b @ ex\<rparr>) =
         calculate_report_score (r\<lparr>doc_url := b @ ep\<rparr>) + 100"
proof -
  have x: "lower (b @ ex) = lower b @ ''.xlsx''" and p: "lower (b @ ep) = lower b @ ''.pdf''"
    using assms by (simp_all add: lower_def)
  have pb: "priority_bonus 0 priority_keywords t (lower b @ ''.xlsx'') =
            priority_bonus 0 priority_keywords t (lower b @ ''.pdf'')" for t
    by (rule priority_bonus_cong) (simp add: keyword_ignores_extension)
  have qp: "quarterly_penalty t (lower b @ ''.xlsx'') 0 =
            quarterly_penalty t (lower b @ ''.pdf'') 0" for t
    by (rule quarterly_penalty_cong) (simp add: keyword_ignores_extension)
  show ?thesis
    by (simp add: score_parts x p pb qp file_bonus_xlsx file_bonus_pdf)
qed


lemma penalty_sum:
  "foldl (\<lambda>score keyword. if P keyword then score - 100 else score) s ks =
     s + (\<Sum>k\<leftarrow>ks. if P k then - 100 else (0::int))"
  by (induction ks arbitrary: s) auto

lemma quarterly_penalty_terms:
  "quarterly_penalty t u 0 =
     (if str_in ''q1'' t \<or> str_in ''q1'' u then - 100 else 0) +
     (if str_in ''q2'' t \<or> str_in ''q2'' u then - 100 else 0) +
     (if str_in ''q3'' t \<or> str_in ''q3'' u then - 100 else 0) +
     (if str_in ''q4'' t \<or> str_in ''q4'' u then - 100 else 0) +
     (if str_in ''quarterly'' t \<or> str_in ''quarterly'' u then - 100 else 0) +
     (if str_in ''quarter'' t \<or> str_in ''quarter'' u then - 100 else 0)"
  unfolding quarterly_penalty_def penalty_sum score_quarterly_keywords_def
  by simp

lemma str_in_trans: "str_in a b \<Longrightarrow> str_in b c \<Longrightarrow> str_in a c"
  unfolding str_in_def sublist_def by (metis append.assoc)

lemma quarter_in_quarterly: "str_in ''quarter'' ''quarterly''"
  unfolding str_in_def by (rule prefix_imp_sublist) simp

lemma quarterly_title_penalty:
  assumes q1: "str_in ''quarterly'' (lower t1)"
    and q2: "\<not> str_in ''quarterly'' (lower t2)"
    and qu: "\<not> str_in ''quarterly'' (lower (doc_url r))"
    and agree: "\<forall>k \<in> set other_title_keywords. str_in k (lower t1) = str_in k (lower t2)"
  shows "calculate_report_score (r\<lparr>doc_title := t1\<rparr>) =
         calculate_report_score (r\<lparr>doc_title := t2\<rparr>) - 100
           - (if str_in ''quarter'' (lower t2) \<or> str_in ''quarter'' (lower (doc_url r)) then 0 else 100)"
proof -
  have qq: "str_in ''quarter'' (lower t1)"
    using quarter_in_quarterly q1 by (rule str_in_trans)
  have ag: "str_in k (lower t1) = str_in k (lower t2)" if "k \<in> set other_title_keywords" for k
    using agree that by blast
  have pb: "priority_bonus 0 priority_keywords (lower t1) u =
            priority_bonus 0 priority_keywords (lower t2) u" for u
    by (rule priority_bonus_cong) (simp add: ag other_title_keywords_def)
  have tk: "str_in ''form'' (lower t1) = str_in ''form'' (lower t2)"
           "str_in ''20'' (lower t1) = str_in ''20'' (lower t2)"
           "str_in ''annual'' (lower t1) = str_in ''annual'' (lower t2)"
           "str_in ''consolidated'' (lower t1) = str_in ''consolidated'' (lower t2)"
           "str_in ''financial'' (lower t1) = str_in ''financial'' (lower t2)"
           "str_in ''statements'' (lower t1) = str_in ''statements'' (lower t2)"
           "str_in ''transparency'' (lower t1) = str_in ''transparency'' (lower t2)"
           "str_in ''disclosure'' (lower t1) = str_in ''disclosure'' (lower t2)"
    by (simp_all add: ag other_title_keywords_def)
  have tb: "title_bonus (lower t1) = title_bonus (lower t2)"
    unfolding title_bonus_def tk ..
  have qk: "str_in ''q1'' (lower t1) = str_in ''q1'' (lower t2)"
           "str_in ''q2'' (lower t1) = str_in ''q2'' (lower t2)"
           "str_in ''q3'' (lower t1) = str_in ''q3'' (lower t2)"
           "str_in ''q4'' (lower t1) = str_in ''q4'' (lower t2)"
    by (simp_all add: ag other_title_keywords_def)
  have qp: "quarterly_penalty (lower t1) u 0 =
            quarterly_penalty (lower t2) u 0
              - (if str_in ''quarterly'' u then 0 else 100)
              - (if str_in ''quarter'' (lower t2) \<or> str_in ''quarter'' u then 0 else 100)" for u
    unfolding quarterly_penalty_terms qk using q1 q2 qq by simp
  show ?thesis
    using qu by (simp add: score_parts pb tb qp)
qed

text \<open>
  Claim C4, as the code has it.  Two candidates that differ only in the extension of the
  URL, one ending in \<open>.xlsx\<close> and one in \<open>.pdf\<close> (in any letter case), differ in score
  by exactly 100 in favour of the spreadsheet.  Two candidates with the same URL whose
  titles agree on every other scoring keyword, one title containing \<open>quarterly\<close> and the
  other not, differ by at least 100 to the disadvantage of the quarterly one, provided
  the URL does not itself contain \<open>quarterly\<close>: 100 for \<open>quarterly\<close> and another 100 for
  \<open>quarter\<close> unless the other title or the URL already contains \<open>quarter\<close>.
\<close>

theorem score_filetype_and_quarterly:
  "(lower ex = ''.xlsx'' \<and> lower ep = ''.pdf'' \<longrightarrow>
      calculate_report_score (r\<lparr>doc_url := b @ ex\<rparr>) =
      calculate_report_score (r\<lparr>doc_url := b @ ep\<rparr>) + 100)
   \<and> (str_in ''quarterly'' (lower t1) \<and> \<not> str_in ''quarterly'' (lower t2) \<and>
      \<not> str_in ''quarterly'' (lower (doc_url r)) \<and>
      (\<forall>k \<in> set other_title_keywords. str_in k (lower t1) = str_in k (lower t2)) \<longrightarrow>
        calculate_report_score (r\<lparr>doc_title := t1\<rparr>) =
          calculate_report_score (r\<lparr>doc_title := t2\<rparr>) - 100
            - (if str_in ''quarter'' (lower t2) \<or> str_in ''quarter'' (lower (doc_url r))
               then 0 else 100)
        \<and> calculate_report_score (r\<lparr>doc_title := t1\<rparr>) \<le>
            calculate_report_score (r\<lparr>doc_title := t2\<rparr>) - 100)"
proof (intro conjI impI)
  assume "lower ex = ''.xlsx'' \<and> lower ep = ''.pdf''"
  then show "calculate_report_score (r\<lparr>doc_url := b @ ex\<rparr>) =
             calculate_report_score (r\<lparr>doc_url := b @ ep\<rparr>) + 100"
    using xlsx_vs_pdf by blast
next
  assume h: "str_in ''quarterly'' (lower t1) \<and> \<not> str_in ''quarterly'' (lower t2) \<and>
      \<not> str_in ''quarterly'' (lower (doc_url r)) \<and>
      (\<forall>k \<in> set other_title_keywords. str_in k (lower t1) = str_in k (lower t2))"
  then have e: "calculate_report_score (r\<lparr>doc_title := t1\<rparr>) =
          calculate_report_score (r\<lparr>doc_title := t2\<rparr>) - 100
            - (if str_in ''quarter'' (lower t2) \<or> str_in ''quarter'' (lower (doc_url r))
               then 0 else 100)"
    using quarterly_title_penalty[of t1 t2 r] by blast
  then show "calculate_report_score (r\<lparr>doc_title := t1\<rparr>) =
          calculate_report_score (r\<lparr>doc_title := t2\<rparr>) - 100
            - (if str_in ''quarter'' (lower t2) \<or> str_in ''quarter'' (lower (doc_url r))
               then 0 else 100)" .
  from e show "calculate_report_score (r\<lparr>doc_title := t1\<rparr>) \<le>
            calculate_report_score (r\<lparr>doc_title := t2\<rparr>) - 100"
    by simp
qed

theorem score_filetype_and_quarterly_witness:
  "calculate_report_score
     \<lparr>doc_url = ''https://ir.example.com/files/ar2020.XLSX'', doc_title = ''Quarterly Annual Report'',
      doc_content = [], doc_year = Some 2020\<rparr> =
   calculate_report_score
     \<lparr>doc_url = ''https://ir.example.com/files/ar2020.pdf'', doc_title = ''Quarterly Annual Report'',
      doc_content = [], doc_year = Some 2020\<rparr> + 100
   \<and> calculate_report_score
     \<lparr>doc_url = ''https://ir.example.com/files/ar2020.pdf'', doc_title = ''Quarterly Annual Report'',
      doc_content = [], doc_year = Some 2020\<rparr> =
   calculate_report_score
     \<lparr>doc_url = ''https://ir.example.com/files/ar2020.pdf'', doc_title = ''Annual Report'',
      doc_content = [], doc_year = Some 2020\<rparr> - 200"
proof -
  let ?r = "\<lparr>doc_url = ''https://ir.example.com/files/ar2020.pdf'', doc_title = ''Annual Report'',
      doc_content = [], doc_year = Some 2020\<rparr>"
  have x: "lower ''.XLSX'' = ''.xlsx'' \<and> lower ''.pdf'' = ''.pdf''" by code_simp
  have q1: "str_in ''quarterly'' (lower ''Quarterly Annual Report'')" by code_simp
  have q2: "\<not> str_in ''quarterly'' (lower ''Annual Report'')" by code_simp
  have qu: "\<not> str_in ''quarterly'' (lower (doc_url ?r))" by code_simp
  have qt: "\<not> str_in ''quarter'' (lower ''Annual Report'')" by code_simp
  have qv: "\<not> str_in ''quarter'' (lower (doc_url ?r))" by code_simp
  have "list_all (\<lambda>k. str_in k (lower ''Quarterly Annual Report'') = str_in k (lower ''Annual Report''))
          other_title_keywords" by code_simp
  then have ag: "\<forall>k \<in> set other_title_keywords.
          str_in k (lower ''Quarterly Annual Report'') = str_in k (lower ''Annual Report'')"
    by (simp add: list_all_iff)
  from score_filetype_and_quarterly[where ex = "''.XLSX''" and ep = "''.pdf''"
        and r = "?r\<lparr>doc_title := ''Quarterly Annual Report''\<rparr>"
        and b = "''https://ir.example.com/files/ar2020''"] x
  have p1: "calculate_report_score
     (?r\<lparr>doc_title := ''Quarterly Annual Report'', doc_url := ''https://ir.example.com/files/ar2020'' @ ''.XLSX''\<rparr>) =
   calculate_report_score
     (?r\<lparr>doc_title := ''Quarterly Annual Report'', doc_url := ''https://ir.example.com/files/ar2020'' @ ''.pdf''\<rparr>) + 100"
    by blast
  from score_filetype_and_quarterly[where r = ?r
        and ?t1.0 = "''Quarterly Annual Report''" and ?t2.0 = "''Annual Report''"] q1 q2 qu ag
  have "calculate_report_score (?r\<lparr>doc_title := ''Quarterly Annual Report''\<rparr>) =
          calculate_report_score (?r\<lparr>doc_title := ''Annual Report''\<rparr>) - 100
            - (if str_in ''quarter'' (lower ''Annual Report'') \<or> str_in ''quarter'' (lower (doc_url ?r))
               then 0 else 100)"
    by blast
  with qt qv have p2: "calculate_report_score (?r\<lparr>doc_title := ''Quarterly Annual Report''\<rparr>) =
          calculate_report_score (?r\<lparr>doc_title := ''Annual Report''\<rparr>) - 200"
    by simp
  from p1 p2 show ?thesis by simp
qed

text \<open>
  The claim as stated fails when the shared URL already contains the quarterly keywords:
  the penalty then applies to both candidates and their scores are equal.
\<close>

theorem quarterly_title_counterexample:
  "str_in ''quarterly'' (lower ''Quarterly Report'')
   \<and> \<not> str_in ''quarterly'' (lower ''Report'')
   \<and> calculate_report_score
       \<lparr>doc_url = ''https://ir.example.com/quarterly/report.pdf'', doc_title = ''Quarterly Report'',
        doc_content = [], doc_year = Some 2020\<rparr> = - 100
   \<and> calculate_report_score
       \<lparr>doc_url = ''https://ir.example.com/quarterly/report.pdf'', doc_title = ''Report'',
        doc_content = [], doc_year = Some 2020\<rparr> = - 100
   \<and> \<not> (calculate_report_score
       \<lparr>doc_url = ''https://ir.example.com/quarterly/report.pdf'', doc_title = ''Quarterly Report'',
        doc_content = [], doc_year = Some 2020\<rparr>
        \<le> calculate_report_score
       \<lparr>doc_url = ''https://ir.example.com/quarterly/report.pdf'', doc_title = ''Report'',
        doc_content = [], doc_year = Some 2020\<rparr> - 100)"
  by code_simp

section \<open>Properties of ranking and selection\<close>

lemma rank_eq: "rank_reports_for_year xs = sort_key (\<lambda>p. - fst p) (map scored xs)"
  by (cases xs) (simp_all add: rank_reports_for_year_def sort_reverse_def scored_def[abs_def])

lemma rank_set: "set (rank_reports_for_year xs) = scored ` set xs"
  by (simp add: rank_eq)

lemma rank_length: "length (rank_reports_for_year xs) = length xs"
  by (simp add: rank_eq)

lemma rank_mset: "mset (map snd (rank_reports_for_year xs)) = mset xs"
proof -
  have "mset (map snd (rank_reports_for_year xs)) = image_mset snd (mset (map scored xs))"
    by (simp add: rank_eq)
  also have "\<dots> = mset xs" by (simp add: image_mset.compositionality comp_def scored_def)
  finally show ?thesis .
qed

lemma rank_scores: "p \<in> set (rank_reports_for_year xs) \<Longrightarrow> fst p = calculate_report_score (snd p)"
  by (auto simp: rank_set scored_def)

lemma rank_sorted: "sorted (map (\<lambda>p. - fst p) (rank_reports_for_year xs))"
  by (simp add: rank_eq)

lemma rank_descending: "sorted (rev (map fst (rank_reports_for_year xs)))"
proof -
  have "sorted (map uminus (map fst (rank_reports_for_year xs)))"
    using rank_sorted[of xs] by (simp add: comp_def)
  then have "sorted_wrt (\<lambda>a b. b \<le> a) (map fst (rank_reports_for_year xs))"
    by (simp add: sorted_wrt_map sorted_map)
  then show ?thesis by (simp add: sorted_wrt_rev)
qed

lemma rank_stable:
  "filter (\<lambda>p. fst p = k) (rank_reports_for_year xs) = filter (\<lambda>p. fst p = k) (map scored xs)"
proof -
  have "filter (\<lambda>p. - fst p = - k) (sort_key (\<lambda>p. - fst p) (map scored xs)) =
        filter (\<lambda>p. - fst p = - k) (map scored xs)"
    by (rule sort_key_stable)
  then show ?thesis by (simp add: rank_eq)
qed

lemma rank_stable_docs:
  "filter (\<lambda>r. calculate_report_score r = k) (map snd (rank_reports_for_year xs)) =
   filter (\<lambda>r. calculate_report_score r = k) xs"
proof -
  have "filter (\<lambda>r. calculate_report_score r = k) (map snd (rank_reports_for_year xs)) =
        map snd (filter (\<lambda>p. calculate_report_score (snd p) = k) (rank_reports_for_year xs))"
    by (simp add: filter_map comp_def)
  also have "\<dots> = map snd (filter (\<lambda>p. fst p = k) (rank_reports_for_year xs))"
    by (rule arg_cong[where f = "map snd"], rule filter_cong) (auto simp: rank_scores)
  also have "\<dots> = map snd (filter (\<lambda>p. fst p = k) (map scored xs))"
    by (simp add: rank_stable)
  also have "\<dots> = filter (\<lambda>r. calculate_report_score r = k) xs"
    by (simp add: filter_map comp_def scored_def)
  finally show ?thesis .
qed

lemma rank_hd_first_max:
  assumes xs: "xs = pre @ a # post"
    and pre: "\<forall>r \<in> set pre. calculate_report_score r < calculate_report_score a"
    and post: "\<forall>r \<in> set post. calculate_report_score r \<le> calculate_report_score a"
  shows "hd (rank_reports_for_year xs) = scored a"
proof -
  let ?R = "rank_reports_for_year xs"
  let ?m = "calculate_report_score a"
  have ne: "?R \<noteq> []" using xs rank_length[of xs] by auto
  then have hd_in: "hd ?R \<in> set ?R" by simp
  then obtain r where r: "hd ?R = scored r" "r \<in> set xs" by (auto simp: rank_set)
  have le: "calculate_report_score r \<le> ?m" using r(2) xs pre post by auto
  have "scored a \<in> set ?R" using xs by (simp add: rank_set)
  moreover have "\<forall>p \<in> set ?R. - fst (hd ?R) \<le> - fst p"
    using rank_sorted[of xs] ne by (cases ?R) auto
  ultimately have "- fst (hd ?R) \<le> - fst (scored a)" by blast
  with r(1) have ge: "?m \<le> calculate_report_score r" by (simp add: scored_def)
  from le ge r(1) have k: "fst (hd ?R) = ?m" by (simp add: scored_def)
  have "hd ?R = hd (filter (\<lambda>p. fst p = ?m) ?R)"
    using ne k by (cases ?R) auto
  also have "\<dots> = hd (filter (\<lambda>p. fst p = ?m) (map scored xs))" by (simp add: rank_stable)
  also have "filter (\<lambda>p. fst p = ?m) (map scored xs) =
             scored a # filter (\<lambda>p. fst p = ?m) (map scored post)"
    using pre by (auto simp add: xs scored_def filter_empty_conv)
  finally show ?thesis by simp
qed


lemma group_step_distinct:
  "distinct (map fst d) \<Longrightarrow> distinct (map fst (group_by_year_step d r))"
  by (auto simp: group_by_year_step_def distinct_update split: option.splits)

lemma group_distinct:
  "distinct (map fst d) \<Longrightarrow> distinct (map fst (foldl group_by_year_step d rs))"
  by (induction rs arbitrary: d) (simp_all add: group_step_distinct)

lemma group_step_map_of:
  "map_of (group_by_year_step d r) y =
     (if doc_year r = Some y \<and> y \<noteq> 0
      then Some ((case map_of d y of None \<Rightarrow> [] | Some l \<Rightarrow> l) @ [r])
      else map_of d y)"
  by (auto simp: group_by_year_step_def update_conv' split: option.splits)

lemma group_map_of:
  "y \<noteq> 0 \<Longrightarrow> map_of (foldl group_by_year_step d rs) y =
     (if candidates_of_year y rs = [] then map_of d y
      else Some ((case map_of d y of None \<Rightarrow> [] | Some l \<Rightarrow> l) @ candidates_of_year y rs))"
proof (induction rs arbitrary: d)
  case Nil
  then show ?case by (simp add: candidates_of_year_def)
next
  case (Cons r rs)
  show ?case
    by (simp add: Cons.IH[OF Cons.prems] group_step_map_of candidates_of_year_def Cons.prems)
qed

lemma group_map_of_zero: "map_of (foldl group_by_year_step d rs) 0 = map_of d 0"
  by (induction rs arbitrary: d) (simp_all add: group_step_map_of)

lemma group_step_keys:
  "fst ` set (group_by_year_step d r) =
     fst ` set d \<union> (case doc_year r of None \<Rightarrow> {} | Some y \<Rightarrow> if y = 0 then {} else {y})"
  by (auto simp: group_by_year_step_def dom_update split: option.splits)

lemma group_keys:
  "fst ` set (foldl group_by_year_step d rs) = fst ` set d \<union> candidate_years rs"
proof (induction rs arbitrary: d)
  case Nil
  then show ?case by (simp add: candidate_years_def)
next
  case (Cons r rs)
  have "candidate_years (r # rs) =
          (case doc_year r of None \<Rightarrow> {} | Some y \<Rightarrow> if y = 0 then {} else {y}) \<union> candidate_years rs"
    by (auto simp: candidate_years_def split: option.splits)
  then show ?case by (simp add: Cons.IH group_step_keys Un_assoc)
qed


lemma rank_company_eq:
  "rank_reports_for_company rs =
     map (\<lambda>(y, l). (y, rank_reports_for_year l)) (foldl group_by_year_step [] rs)"
  by (cases rs) (simp_all add: rank_reports_for_company_def)

lemma candidate_years_iff: "y \<in> candidate_years rs \<longleftrightarrow> y \<noteq> 0 \<and> candidates_of_year y rs \<noteq> []"
  by (auto simp: candidate_years_def candidates_of_year_def filter_empty_conv)

lemma ranked_map_of:
  "map_of (rank_reports_for_company rs) y =
     (if y \<in> candidate_years rs then Some (rank_reports_for_year (candidates_of_year y rs)) else None)"
proof (cases "y = 0")
  case True
  then show ?thesis
    by (simp add: rank_company_eq map_of_map group_map_of_zero candidate_years_iff)
next
  case False
  then show ?thesis
    by (simp add: rank_company_eq map_of_map group_map_of candidate_years_iff)
qed

lemma ranked_keys_set: "set (map fst (rank_reports_for_company rs)) = candidate_years rs"
proof -
  have "map fst (rank_reports_for_company rs) = map fst (foldl group_by_year_step [] rs)"
    by (simp add: rank_company_eq comp_def case_prod_unfold)
  then show ?thesis using group_keys[of "[]" rs] by simp
qed

lemma ranked_keys_distinct: "distinct (map fst (rank_reports_for_company rs))"
proof -
  have "map fst (rank_reports_for_company rs) = map fst (foldl group_by_year_step [] rs)"
    by (simp add: rank_company_eq comp_def case_prod_unfold)
  then show ?thesis using group_distinct[of "[]" rs] by simp
qed

lemma select_year_nonempty:
  "R \<noteq> [] \<Longrightarrow>
     select_year y R = Some \<lparr>sel_year = y, best = [snd (hd R)], secondary = map snd (take 2 (tl R))\<rparr>"
proof (cases R)
  case (Cons a R1)
  show ?thesis
  proof (cases R1)
    case Nil
    with Cons show ?thesis by (simp add: select_year_def)
  next
    case c2: (Cons b R2)
    show ?thesis
    proof (cases R2)
      case Nil
      with Cons c2 show ?thesis by (simp add: select_year_def)
    next
      case c3: (Cons c R3)
      with Cons c2 show ?thesis by (simp add: select_year_def numeral_2_eq_2)
    qed
  qed
qed simp

lemma map_filter_all_Some:
  "(\<And>y. y \<in> set ys \<Longrightarrow> f y = Some (g y)) \<Longrightarrow> List.map_filter f ys = map g ys"
  by (induction ys) simp_all

lemma years_covered_eq:
  "years_covered (process_company_reports rs) = sort (map fst (rank_reports_for_company rs))"
  by (simp add: process_company_reports_def select_best_reports_def Let_def)

lemma sel_reports_eq:
  "sel_reports (process_company_reports rs) =
     map (\<lambda>y. \<lparr>sel_year = y,
               best = [snd (hd (rank_reports_for_year (candidates_of_year y rs)))],
               secondary = map snd (take 2 (tl (rank_reports_for_year (candidates_of_year y rs))))\<rparr>)
       (years_covered (process_company_reports rs))"
proof -
  have "List.map_filter
          (\<lambda>y. case map_of (rank_reports_for_company rs) y of
                 None \<Rightarrow> None
               | Some ranked_year_reports \<Rightarrow> select_year y ranked_year_reports)
          (sort (map fst (rank_reports_for_company rs))) =
        map (\<lambda>y. \<lparr>sel_year = y,
               best = [snd (hd (rank_reports_for_year (candidates_of_year y rs)))],
               secondary = map snd (take 2 (tl (rank_reports_for_year (candidates_of_year y rs))))\<rparr>)
          (sort (map fst (rank_reports_for_company rs)))"
  proof (rule map_filter_all_Some)
    fix y assume "y \<in> set (sort (map fst (rank_reports_for_company rs)))"
    then have y: "y \<in> candidate_years rs" using ranked_keys_set[of rs] by simp
    then have "rank_reports_for_year (candidates_of_year y rs) \<noteq> []"
      using rank_length[of "candidates_of_year y rs"] by (auto simp: candidate_years_iff)
    then show "(case map_of (rank_reports_for_company rs) y of
                 None \<Rightarrow> None
               | Some ranked_year_reports \<Rightarrow> select_year y ranked_year_reports) =
          Some \<lparr>sel_year = y,
               best = [snd (hd (rank_reports_for_year (candidates_of_year y rs)))],
               secondary = map snd (take 2 (tl (rank_reports_for_year (candidates_of_year y rs))))\<rparr>"
      using y by (simp add: ranked_map_of select_year_nonempty)
  qed
  then show ?thesis
    by (simp add: process_company_reports_def select_best_reports_def Let_def)
qed

lemma take3: "R \<noteq> [] \<Longrightarrow> hd R # take 2 (tl R) = take 3 R"
  by (cases R) (simp_all add: numeral_3_eq_3 numeral_2_eq_2)


text \<open>
  Claim C5.  The ranking of one year's candidates is a function of the list: it is a
  rearrangement of the candidates, each paired with its score, in descending score
  order, and candidates with equal scores keep their discovery order.  Hence the first
  discovered candidate among those with the highest score is the one selected as best,
  whatever equal-scoring candidates follow it.
\<close>

theorem stable_ranking_first_discovered_best:
  "mset (map snd (rank_reports_for_year xs)) = mset xs
   \<and> (\<forall>p \<in> set (rank_reports_for_year xs). fst p = calculate_report_score (snd p))
   \<and> sorted (rev (map fst (rank_reports_for_year xs)))
   \<and> (\<forall>k. filter (\<lambda>r. calculate_report_score r = k) (map snd (rank_reports_for_year xs)) =
           filter (\<lambda>r. calculate_report_score r = k) xs)
   \<and> (xs = pre @ a # post \<and>
      (\<forall>r \<in> set pre. calculate_report_score r < calculate_report_score a) \<and>
      (\<forall>r \<in> set post. calculate_report_score r \<le> calculate_report_score a) \<longrightarrow>
        (\<exists>e. select_year y (rank_reports_for_year xs) = Some e \<and> best e = [a]))"
proof (intro conjI allI impI ballI)
  show "mset (map snd (rank_reports_for_year xs)) = mset xs" by (rule rank_mset)
next
  fix p assume "p \<in> set (rank_reports_for_year xs)"
  then show "fst p = calculate_report_score (snd p)" by (rule rank_scores)
next
  show "sorted (rev (map fst (rank_reports_for_year xs)))" by (rule rank_descending)
next
  fix k
  show "filter (\<lambda>r. calculate_report_score r = k) (map snd (rank_reports_for_year xs)) =
        filter (\<lambda>r. calculate_report_score r = k) xs" by (rule rank_stable_docs)
next
  assume h: "xs = pre @ a # post \<and>
      (\<forall>r \<in> set pre. calculate_report_score r < calculate_report_score a) \<and>
      (\<forall>r \<in> set post. calculate_report_score r \<le> calculate_report_score a)"
  then have hd: "hd (rank_reports_for_year xs) = scored a"
    using rank_hd_first_max[of xs pre a post] by blast
  from h have "rank_reports_for_year xs \<noteq> []" using rank_length[of xs] by auto
  from select_year_nonempty[OF this, of y] hd
  show "\<exists>e. select_year y (rank_reports_for_year xs) = Some e \<and> best e = [a]"
    by (simp add: scored_def)
qed

theorem stable_ranking_first_discovered_best_witness:
  "calculate_report_score
      \<lparr>doc_url = ''https://ir.example.com/a/annual-2020.pdf'', doc_title = ''Annual Report'',
       doc_content = [], doc_year = Some 2020\<rparr> =
   calculate_report_score
      \<lparr>doc_url = ''https://ir.example.com/b/annual-2020.pdf'', doc_title = ''Annual Report'',
       doc_content = [], doc_year = Some 2020\<rparr>
   \<and> (\<exists>e. select_year 2020 (rank_reports_for_year
        [\<lparr>doc_url = ''https://ir.example.com/notes-2020.pdf'', doc_title = ''Notes'',
          doc_content = [], doc_year = Some 2020\<rparr>,
         \<lparr>doc_url = ''https://ir.example.com/a/annual-2020.pdf'', doc_title = ''Annual Report'',
          doc_content = [], doc_year = Some 2020\<rparr>,
         \<lparr>doc_url = ''https://ir.example.com/b/annual-2020.pdf'', doc_title = ''Annual Report'',
          doc_content = [], doc_year = Some 2020\<rparr>]) = Some e
      \<and> best e = [\<lparr>doc_url = ''https://ir.example.com/a/annual-2020.pdf'', doc_title = ''Annual Report'',
          doc_content = [], doc_year = Some 2020\<rparr>])"
proof -
  let ?n = "\<lparr>doc_url = ''https://ir.example.com/notes-2020.pdf'', doc_title = ''Notes'',
          doc_content = [], doc_year = Some 2020\<rparr>"
  let ?a = "\<lparr>doc_url = ''https://ir.example.com/a/annual-2020.pdf'', doc_title = ''Annual Report'',
          doc_content = [], doc_year = Some 2020\<rparr>"
  let ?b = "\<lparr>doc_url = ''https://ir.example.com/b/annual-2020.pdf'', doc_title = ''Annual Report'',
          doc_content = [], doc_year = Some 2020\<rparr>"
  have sn: "calculate_report_score ?n = 100" by code_simp
  have sa: "calculate_report_score ?a = 200" by code_simp
  have sb: "calculate_report_score ?b = 200" by code_simp
  have h: "[?n, ?a, ?b] = [?n] @ ?a # [?b] \<and>
      (\<forall>r \<in> set [?n]. calculate_report_score r < calculate_report_score ?a) \<and>
      (\<forall>r \<in> set [?b]. calculate_report_score r \<le> calculate_report_score ?a)"
    using sn sa sb by simp
  from stable_ranking_first_discovered_best[of "[?n, ?a, ?b]" "[?n]" ?a "[?b]" 2020] h
  have "\<exists>e. select_year 2020 (rank_reports_for_year [?n, ?a, ?b]) = Some e \<and> best e = [?a]"
    by blast
  with sa sb show ?thesis by simp
qed

lemma rank_docs_distinct:
  "distinct xs \<Longrightarrow> distinct (map snd (rank_reports_for_year xs))"
  using rank_mset[of xs] by (metis distinct_count_atmost_1 set_mset_mset)

lemma rank_docs_set: "set (map snd (rank_reports_for_year xs)) = set xs"
  using rank_mset[of xs] by (metis set_mset_mset)

lemma sorted_rev_take: "sorted (rev (ys :: int list)) \<Longrightarrow> sorted (rev (take n ys))"
  by (metis sorted_wrt_rev sorted_wrt_take)

lemma rank_top_score:
  assumes "xs \<noteq> []" "r \<in> set xs"
  shows "calculate_report_score r \<le> calculate_report_score (snd (hd (rank_reports_for_year xs)))"
proof -
  let ?R = "rank_reports_for_year xs"
  have ne: "?R \<noteq> []" using assms(1) rank_length[of xs] by auto
  have "scored r \<in> set ?R" using assms(2) by (simp add: rank_set)
  moreover have "\<forall>p \<in> set ?R. - fst (hd ?R) \<le> - fst p"
    using rank_sorted[of xs] ne by (cases ?R) auto
  ultimately have "fst (scored r) \<le> fst (hd ?R)" by fastforce
  moreover have "fst (hd ?R) = calculate_report_score (snd (hd ?R))"
    using ne by (intro rank_scores[of _ xs]) simp
  ultimately show ?thesis by (simp add: scored_def)
qed

lemma selected_entry:
  assumes "e \<in> set (sel_reports (process_company_reports rs))"
  shows "sel_year e \<in> candidate_years rs"
    and "best e = [snd (hd (rank_reports_for_year (candidates_of_year (sel_year e) rs)))]"
    and "secondary e = map snd (take 2 (tl (rank_reports_for_year (candidates_of_year (sel_year e) rs))))"
proof -
  from assms obtain y where y: "y \<in> set (years_covered (process_company_reports rs))"
    and e: "e = \<lparr>sel_year = y,
               best = [snd (hd (rank_reports_for_year (candidates_of_year y rs)))],
               secondary = map snd (take 2 (tl (rank_reports_for_year (candidates_of_year y rs))))\<rparr>"
    by (subst (asm) sel_reports_eq) auto
  from y show "sel_year e \<in> candidate_years rs"
    using ranked_keys_set[of rs] by (simp add: e years_covered_eq)
  show "best e = [snd (hd (rank_reports_for_year (candidates_of_year (sel_year e) rs)))]"
    by (simp add: e)
  show "secondary e = map snd (take 2 (tl (rank_reports_for_year (candidates_of_year (sel_year e) rs))))"
    by (simp add: e)
qed

lemma selected_top3:
  assumes "e \<in> set (sel_reports (process_company_reports rs))"
  shows "best e @ secondary e =
           map snd (take 3 (rank_reports_for_year (candidates_of_year (sel_year e) rs)))"
proof -
  let ?R = "rank_reports_for_year (candidates_of_year (sel_year e) rs)"
  have "candidates_of_year (sel_year e) rs \<noteq> []"
    using selected_entry(1)[OF assms] by (simp add: candidate_years_iff)
  then have ne: "?R \<noteq> []" using rank_length[of "candidates_of_year (sel_year e) rs"] by auto
  have "best e @ secondary e = map snd (hd ?R # take 2 (tl ?R))"
    by (simp add: selected_entry(2,3)[OF assms])
  also have "\<dots> = map snd (take 3 ?R)" by (simp only: take3[OF ne])
  finally show ?thesis .
qed

text \<open>
  Claim C6, as the code has it.  The years of the output are exactly the non-zero years
  that have a candidate, sorted and without repetition, with one entry per year in that
  order; so a year without candidates has no entry.  Each entry lists the first three
  reports of the year's ranking: exactly one best report, which no candidate of the
  year outscores, and at most two secondary reports, in descending score order.  Best
  and secondary occupy different places of the ranking; they are disjoint whenever the
  candidates of that year are pairwise distinct.
\<close>

theorem selection_per_year:
  "sorted (years_covered (process_company_reports rs))
   \<and> distinct (years_covered (process_company_reports rs))
   \<and> set (years_covered (process_company_reports rs)) = candidate_years rs
   \<and> map sel_year (sel_reports (process_company_reports rs)) =
       years_covered (process_company_reports rs)
   \<and> (\<forall>e \<in> set (sel_reports (process_company_reports rs)).
        candidates_of_year (sel_year e) rs \<noteq> []
        \<and> length (best e) = 1
        \<and> length (secondary e) = min 2 (length (candidates_of_year (sel_year e) rs) - 1)
        \<and> best e @ secondary e =
            map snd (take 3 (rank_reports_for_year (candidates_of_year (sel_year e) rs)))
        \<and> (\<forall>r \<in> set (candidates_of_year (sel_year e) rs). \<forall>b \<in> set (best e).
              calculate_report_score r \<le> calculate_report_score b)
        \<and> sorted (rev (map calculate_report_score (best e @ secondary e)))
        \<and> (distinct (candidates_of_year (sel_year e) rs) \<longrightarrow>
              set (best e) \<inter> set (secondary e) = {}))"
proof (intro conjI)
  show "sorted (years_covered (process_company_reports rs))"
    by (simp add: years_covered_eq)
  show "distinct (years_covered (process_company_reports rs))"
    using ranked_keys_distinct[of rs] by (simp add: years_covered_eq)
  show "set (years_covered (process_company_reports rs)) = candidate_years rs"
    using ranked_keys_set[of rs] by (simp add: years_covered_eq)
  show "map sel_year (sel_reports (process_company_reports rs)) =
          years_covered (process_company_reports rs)"
    by (subst sel_reports_eq) (simp add: comp_def)
next
  show "\<forall>e \<in> set (sel_reports (process_company_reports rs)).
        candidates_of_year (sel_year e) rs \<noteq> []
        \<and> length (best e) = 1
        \<and> length (secondary e) = min 2 (length (candidates_of_year (sel_year e) rs) - 1)
        \<and> best e @ secondary e =
            map snd (take 3 (rank_reports_for_year (candidates_of_year (sel_year e) rs)))
        \<and> (\<forall>r \<in> set (candidates_of_year (sel_year e) rs). \<forall>b \<in> set (best e).
              calculate_report_score r \<le> calculate_report_score b)
        \<and> sorted (rev (map calculate_report_score (best e @ secondary e)))
        \<and> (distinct (candidates_of_year (sel_year e) rs) \<longrightarrow>
              set (best e) \<inter> set (secondary e) = {})"
  proof
  fix e assume e: "e \<in> set (sel_reports (process_company_reports rs))"
  let ?C = "candidates_of_year (sel_year e) rs"
  let ?R = "rank_reports_for_year ?C"
  note ent = selected_entry[OF e]
  have cne: "?C \<noteq> []" using ent(1) by (simp add: candidate_years_iff)
  have l1: "length (best e) = 1" by (simp add: ent(2))
  have l2: "length (secondary e) = min 2 (length ?C - 1)"
    by (simp add: ent(3) rank_length)
  have top3: "best e @ secondary e = map snd (take 3 ?R)" by (rule selected_top3[OF e])
  have top: "\<forall>r \<in> set ?C. \<forall>b \<in> set (best e). calculate_report_score r \<le> calculate_report_score b"
    using rank_top_score[OF cne] by (simp add: ent(2))
  have desc: "sorted (rev (map calculate_report_score (best e @ secondary e)))"
  proof -
    have eq: "map (calculate_report_score \<circ> snd) ?R = map fst ?R"
      by (rule map_cong[OF refl]) (simp add: rank_scores)
    have "map calculate_report_score (map snd (take 3 ?R)) =
          take 3 (map (calculate_report_score \<circ> snd) ?R)"
      by (simp only: take_map map_map)
    then have "map calculate_report_score (map snd (take 3 ?R)) = take 3 (map fst ?R)"
      by (simp only: eq)
    then show ?thesis
      using sorted_rev_take[OF rank_descending[of ?C], of 3] by (simp add: top3)
  qed
  have disj: "distinct ?C \<longrightarrow> set (best e) \<inter> set (secondary e) = {}"
  proof
    assume "distinct ?C"
    then have "distinct (map snd ?R)" by (rule rank_docs_distinct)
    then have "distinct (take 3 (map snd ?R))" by (rule distinct_take)
    then have "distinct (best e @ secondary e)" by (simp add: top3 take_map)
    then show "set (best e) \<inter> set (secondary e) = {}" by simp
  qed
  from cne l1 l2 top3 top desc disj
  show "?C \<noteq> [] \<and> length (best e) = 1 \<and> length (secondary e) = min 2 (length ?C - 1)
        \<and> best e @ secondary e = map snd (take 3 ?R)
        \<and> (\<forall>r \<in> set ?C. \<forall>b \<in> set (best e). calculate_report_score r \<le> calculate_report_score b)
        \<and> sorted (rev (map calculate_report_score (best e @ secondary e)))
        \<and> (distinct ?C \<longrightarrow> set (best e) \<inter> set (secondary e) = {})"
    by blast
  qed
qed

theorem selection_per_year_witness:
  "sel_reports (process_company_reports
      [\<lparr>doc_url = ''https://ir.example.com/a/annual-2020.pdf'', doc_title = ''Annual Report'',
        doc_content = [], doc_year = Some 2020\<rparr>,
       \<lparr>doc_url = ''https://ir.example.com/a/data-2020.xlsx'', doc_title = ''Annual Report'',
        doc_content = [], doc_year = Some 2020\<rparr>,
       \<lparr>doc_url = ''https://ir.example.com/a/undated.pdf'', doc_title = ''Annual Report'',
        doc_content = [], doc_year = None\<rparr>]) =
     [\<lparr>sel_year = 2020,
       best = [\<lparr>doc_url = ''https://ir.example.com/a/data-2020.xlsx'', doc_title = ''Annual Report'',
                doc_content = [], doc_year = Some 2020\<rparr>],
       secondary = [\<lparr>doc_url = ''https://ir.example.com/a/annual-2020.pdf'', doc_title = ''Annual Report'',
                doc_content = [], doc_year = Some 2020\<rparr>]\<rparr>]
   \<and> list_all (\<lambda>e. set (best e) \<inter> set (secondary e) = {})
       (sel_reports (process_company_reports
      [\<lparr>doc_url = ''https://ir.example.com/a/annual-2020.pdf'', doc_title = ''Annual Report'',
        doc_content = [], doc_year = Some 2020\<rparr>,
       \<lparr>doc_url = ''https://ir.example.com/a/data-2020.xlsx'', doc_title = ''Annual Report'',
        doc_content = [], doc_year = Some 2020\<rparr>,
       \<lparr>doc_url = ''https://ir.example.com/a/undated.pdf'', doc_title = ''Annual Report'',
        doc_content = [], doc_year = None\<rparr>]))"
proof -
  let ?rs = "[\<lparr>doc_url = ''https://ir.example.com/a/annual-2020.pdf'', doc_title = ''Annual Report'',
        doc_content = [], doc_year = Some 2020\<rparr>,
       \<lparr>doc_url = ''https://ir.example.com/a/data-2020.xlsx'', doc_title = ''Annual Report'',
        doc_content = [], doc_year = Some 2020\<rparr>,
       \<lparr>doc_url = ''https://ir.example.com/a/undated.pdf'', doc_title = ''Annual Report'',
        doc_content = [], doc_year = None\<rparr>]"
  have v: "sel_reports (process_company_reports ?rs) =
     [\<lparr>sel_year = 2020,
       best = [\<lparr>doc_url = ''https://ir.example.com/a/data-2020.xlsx'', doc_title = ''Annual Report'',
                doc_content = [], doc_year = Some 2020\<rparr>],
       secondary = [\<lparr>doc_url = ''https://ir.example.com/a/annual-2020.pdf'', doc_title = ''Annual Report'',
                doc_content = [], doc_year = Some 2020\<rparr>]\<rparr>]"
    by code_simp
  have d: "distinct (candidates_of_year 2020 ?rs)" by code_simp
  have "\<forall>e \<in> set (sel_reports (process_company_reports ?rs)).
          set (best e) \<inter> set (secondary e) = {}"
  proof
    fix e assume e: "e \<in> set (sel_reports (process_company_reports ?rs))"
    with v have y: "sel_year e = 2020" by auto
    from selection_per_year[of ?rs] e
    have "distinct (candidates_of_year (sel_year e) ?rs) \<longrightarrow> set (best e) \<inter> set (secondary e) = {}"
      by blast
    with d y show "set (best e) \<inter> set (secondary e) = {}" by simp
  qed
  then have "list_all (\<lambda>e. set (best e) \<inter> set (secondary e) = {})
          (sel_reports (process_company_reports ?rs))"
    by (simp only: list_all_iff)
  with v show ?thesis by blast
qed

text \<open>
  The claim as stated fails when the same document reaches the ranker twice for one
  year: the copy is the next entry of the ranking and becomes a secondary report.
\<close>

theorem selection_disjoint_counterexample:
  "sel_reports (process_company_reports
      [\<lparr>doc_url = ''https://ir.example.com/annual_report_2020.pdf'',
        doc_title = ''annual_report_2020.pdf'', doc_content = [], doc_year = Some 2020\<rparr>,
       \<lparr>doc_url = ''https://ir.example.com/annual_report_2020.pdf'',
        doc_title = ''annual_report_2020.pdf'', doc_content = [], doc_year = Some 2020\<rparr>]) =
     [\<lparr>sel_year = 2020,
       best = [\<lparr>doc_url = ''https://ir.example.com/annual_report_2020.pdf'',
                doc_title = ''annual_report_2020.pdf'', doc_content = [], doc_year = Some 2020\<rparr>],
       secondary = [\<lparr>doc_url = ''https://ir.example.com/annual_report_2020.pdf'',
                doc_title = ''annual_report_2020.pdf'', doc_content = [], doc_year = Some 2020\<rparr>]\<rparr>]"
  by code_simp

section \<open>Documents without a year never reach the output\<close>

lemma filter_documents_year:
  "d \<in> set (filter_documents_by_year mn cy docs) \<Longrightarrow>
     d \<in> set docs \<and> (\<exists>y. doc_year d = Some y \<and> y \<noteq> 0 \<and> mn \<le> y \<and> y < cy)"
  by (auto simp: filter_documents_by_year_def truthy_year_def split: option.splits)

lemma selected_documents:
  assumes e: "e \<in> set (sel_reports (process_company_reports rs))"
    and d: "d \<in> set (best e @ secondary e)"
  shows "d \<in> set rs \<and> doc_year d = Some (sel_year e) \<and> sel_year e \<noteq> 0"
proof -
  let ?C = "candidates_of_year (sel_year e) rs"
  from d have "d \<in> set (map snd (take 3 (rank_reports_for_year ?C)))"
    by (simp only: selected_top3[OF e])
  then have "d \<in> set (map snd (rank_reports_for_year ?C))"
    by (auto dest: in_set_takeD)
  then have "d \<in> set ?C" by (simp only: rank_docs_set)
  then have "d \<in> set rs \<and> doc_year d = Some (sel_year e)"
    by (simp add: candidates_of_year_def)
  moreover have "sel_year e \<noteq> 0"
    using selected_entry(1)[OF e] by (simp add: candidate_years_iff)
  ultimately show ?thesis by blast
qed

text \<open>
  Claim C10.  The year filter keeps only documents whose year is present (and non-zero)
  and inside the window \<open>min_year \<le> year < current_year\<close>; the ranker's grouping ignores
  documents without a year, so every document listed as best or secondary of an entry
  carries exactly the entry's year; and in the selection made for a company from the
  documents of a crawl, every listed document is one of the crawl's documents with a
  present year inside the window.  A document whose year is \<open>None\<close> is in no entry.
\<close>

theorem no_selected_document_without_year:
  "(\<forall>d \<in> set (filter_documents_by_year mn cy docs).
       d \<in> set docs \<and> (\<exists>y. doc_year d = Some y \<and> y \<noteq> 0 \<and> mn \<le> y \<and> y < cy))
   \<and> (\<forall>e \<in> set (sel_reports (process_company_reports rs)). \<forall>d \<in> set (best e @ secondary e).
       d \<in> set rs \<and> doc_year d = Some (sel_year e) \<and> sel_year e \<noteq> 0)
   \<and> (\<forall>e \<in> set (sel_reports (select_for_company mn cy docs)). \<forall>d \<in> set (best e @ secondary e).
       d \<in> set docs \<and> doc_year d = Some (sel_year e) \<and> doc_year d \<noteq> None \<and>
       mn \<le> sel_year e \<and> sel_year e < cy)"
proof (intro conjI)
  show "\<forall>d \<in> set (filter_documents_by_year mn cy docs).
       d \<in> set docs \<and> (\<exists>y. doc_year d = Some y \<and> y \<noteq> 0 \<and> mn \<le> y \<and> y < cy)"
    using filter_documents_year by blast
  show "\<forall>e \<in> set (sel_reports (process_company_reports rs)). \<forall>d \<in> set (best e @ secondary e).
       d \<in> set rs \<and> doc_year d = Some (sel_year e) \<and> sel_year e \<noteq> 0"
    using selected_documents by blast
  show "\<forall>e \<in> set (sel_reports (select_for_company mn cy docs)). \<forall>d \<in> set (best e @ secondary e).
       d \<in> set docs \<and> doc_year d = Some (sel_year e) \<and> doc_year d \<noteq> None \<and>
       mn \<le> sel_year e \<and> sel_year e < cy"
  proof (intro ballI)
    fix e d
    assume e: "e \<in> set (sel_reports (select_for_company mn cy docs))"
      and d: "d \<in> set (best e @ secondary e)"
    let ?F = "filter_documents_by_year mn cy docs"
    from e have e': "e \<in> set (sel_reports (process_company_reports ?F))"
      by (cases "?F = []") (simp_all add: select_for_company_def Let_def)
    from selected_documents[OF e' d]
    have 1: "d \<in> set ?F" and 2: "doc_year d = Some (sel_year e)" by blast+
    from filter_documents_year[OF 1] 2
    show "d \<in> set docs \<and> doc_year d = Some (sel_year e) \<and> doc_year d \<noteq> None \<and>
       mn \<le> sel_year e \<and> sel_year e < cy"
      by auto
  qed
qed

theorem no_selected_document_without_year_witness:
  "filter_documents_by_year 2014 2025
      [\<lparr>doc_url = ''https://ir.example.com/a/annual-2020.pdf'', doc_title = ''Annual Report'',
        doc_content = [], doc_year = Some 2020\<rparr>,
       \<lparr>doc_url = ''https://ir.example.com/a/undated.pdf'', doc_title = ''Annual Report'',
        doc_content = [], doc_year = None\<rparr>,
       \<lparr>doc_url = ''https://ir.example.com/a/annual-2009.pdf'', doc_title = ''Annual Report'',
        doc_content = [], doc_year = Some 2009\<rparr>] =
      [\<lparr>doc_url = ''https://ir.example.com/a/annual-2020.pdf'', doc_title = ''Annual Report'',
        doc_content = [], doc_year = Some 2020\<rparr>]
   \<and> sel_reports (select_for_company 2014 2025
      [\<lparr>doc_url = ''https://ir.example.com/a/annual-2020.pdf'', doc_title = ''Annual Report'',
        doc_content = [], doc_year = Some 2020\<rparr>,
       \<lparr>doc_url = ''https://ir.example.com/a/undated.pdf'', doc_title = ''Annual Report'',
        doc_content = [], doc_year = None\<rparr>,
       \<lparr>doc_url = ''https://ir.example.com/a/annual-2009.pdf'', doc_title = ''Annual Report'',
        doc_content = [], doc_year = Some 2009\<rparr>]) =
      [\<lparr>sel_year = 2020,
        best = [\<lparr>doc_url = ''https://ir.example.com/a/annual-2020.pdf'', doc_title = ''Annual Report'',
                 doc_content = [], doc_year = Some 2020\<rparr>],
        secondary = []\<rparr>]
   \<and> list_all (\<lambda>e. list_all (\<lambda>d. doc_year d \<noteq> None) (best e @ secondary e))
       (sel_reports (select_for_company 2014 2025
      [\<lparr>doc_url = ''https://ir.example.com/a/annual-2020.pdf'', doc_title = ''Annual Report'',
        doc_content = [], doc_year = Some 2020\<rparr>,
       \<lparr>doc_url = ''https://ir.example.com/a/undated.pdf'', doc_title = ''Annual Report'',
        doc_content = [], doc_year = None\<rparr>,
       \<lparr>doc_url = ''https://ir.example.com/a/annual-2009.pdf'', doc_title = ''Annual Report'',
        doc_content = [], doc_year = Some 2009\<rparr>]))"
proof -
  let ?docs = "[\<lparr>doc_url = ''https://ir.example.com/a/annual-2020.pdf'', doc_title = ''Annual Report'',
        doc_content = [], doc_year = Some 2020\<rparr>,
       \<lparr>doc_url = ''https://ir.example.com/a/undated.pdf'', doc_title = ''Annual Report'',
        doc_content = [], doc_year = None\<rparr>,
       \<lparr>doc_url = ''https://ir.example.com/a/annual-2009.pdf'', doc_title = ''Annual Report'',
        doc_content = [], doc_year = Some 2009\<rparr>]"
  have f: "filter_documents_by_year 2014 2025 ?docs =
      [\<lparr>doc_url = ''https://ir.example.com/a/annual-2020.pdf'', doc_title = ''Annual Report'',
        doc_content = [], doc_year = Some 2020\<rparr>]"
    by code_simp
  have s: "sel_reports (select_for_company 2014 2025 ?docs) =
      [\<lparr>sel_year = 2020,
        best = [\<lparr>doc_url = ''https://ir.example.com/a/annual-2020.pdf'', doc_title = ''Annual Report'',
                 doc_content = [], doc_year = Some 2020\<rparr>],
        secondary = []\<rparr>]"
    by code_simp
  have "\<forall>e \<in> set (sel_reports (select_for_company 2014 2025 ?docs)). \<forall>d \<in> set (best e @ secondary e).
        doc_year d \<noteq> None"
    using no_selected_document_without_year[of 2014 2025 ?docs] by blast
  then have "list_all (\<lambda>e. list_all (\<lambda>d. doc_year d \<noteq> None) (best e @ secondary e))
       (sel_reports (select_for_company 2014 2025 ?docs))"
    by (simp only: list_all_iff)
  with f s show ?thesis by blast
qed

section \<open>Retries of the fetcher\<close>








section \<open>Properties of the crawl\<close>









lemma crawl_inv_start:
  "crawl_inv (st\<lparr> url_queue := q, visited_urls := {}, found_documents := [],
                 processed_log := [], enqueue_log := [],
                 request_log := [], get_log := [], sleep_log := [], base_domain := b, url_queue := q' \<rparr>)"
  by (simp add: crawl_inv_def)




section \<open>Where the crawl departs from the specification\<close>

lemma report_crawl_result:
  "find_annual_reports (example_env report_net) ''https://ir.example.com/reports'' new_crawler =
   ([\<lparr>doc_url = ''https://ir.example.com/files/annual_report_2020.pdf'',
       doc_title = ''Annual Report 2020'', doc_content = [], doc_year = Some 2020\<rparr>,
     \<lparr>doc_url = ''https://ir.example.com/files/annual_report_2020.pdf'',
       doc_title = ''annual_report_2020.pdf'', doc_content = [], doc_year = Some 2020\<rparr>],
    \<lparr>problematic_urls = {}, get_count = 4,
      request_log =
        [''https://ir.example.com/reports'', ''https://ir.example.com/reports'',
         ''https://ir.example.com/files/annual_report_2020.pdf'',
         ''https://ir.example.com/files/annual_report_2020.pdf''],
      get_log =
        [''https://ir.example.com/reports'', ''https://ir.example.com/reports'',
         ''https://ir.example.com/files/annual_report_2020.pdf'',
         ''https://ir.example.com/files/annual_report_2020.pdf''],
      sleep_log = [], url_queue = [],
      visited_urls =
        {''https://ir.example.com/files/annual_report_2020.pdf'', ''https://ir.example.com/reports''},
      found_documents =
        [\<lparr>doc_url = ''https://ir.example.com/files/annual_report_2020.pdf'',
            doc_title = ''Annual Report 2020'', doc_content = [], doc_year = Some 2020\<rparr>,
         \<lparr>doc_url = ''https://ir.example.com/files/annual_report_2020.pdf'',
            doc_title = ''annual_report_2020.pdf'', doc_content = [], doc_year = Some 2020\<rparr>],
      max_depth = 2, base_domain = Some ''example.com'',
      processed_log =
        [''https://ir.example.com/reports'', ''https://ir.example.com/files/annual_report_2020.pdf''],
      enqueue_log = [''https://ir.example.com/files/annual_report_2020.pdf'']\<rparr>)"
  by code_simp

text \<open>
  Claim C8 at a failing input.  The reports page links to the annual report, which is
  recorded from the link; the link is also followed, the PDF's content type makes the
  header check record the same URL again, and the header check does not look for the
  URL among the documents already found.  The output has two entries with one URL.
\<close>

theorem header_check_duplicates_found_document:
  "map doc_url (fst (find_annual_reports (example_env report_net)
       ''https://ir.example.com/reports'' new_crawler)) =
     [''https://ir.example.com/files/annual_report_2020.pdf'',
      ''https://ir.example.com/files/annual_report_2020.pdf'']
   \<and> map doc_title (fst (find_annual_reports (example_env report_net)
       ''https://ir.example.com/reports'' new_crawler)) =
     [''Annual Report 2020'', ''annual_report_2020.pdf'']
   \<and> \<not> distinct (map doc_url (fst (find_annual_reports (example_env report_net)
       ''https://ir.example.com/reports'' new_crawler)))"
  by (simp add: report_crawl_result)

lemma links_crawl_result:
  "find_annual_reports (example_env links_net) ''https://a.example.com/x'' new_crawler =
   ([],
    \<lparr>problematic_urls = {}, get_count = 6,
      request_log =
        [''https://a.example.com/x'', ''https://a.example.com/x'',
         ''https://a.example.com:x@evil.com/results'', ''https://a.example.com:x@evil.com/results'',
         ''https://investors.example.com/y'', ''https://investors.example.com/y''],
      get_log =
        [''https://a.example.com/x'', ''https://a.example.com/x'',
         ''https://a.example.com:x@evil.com/results'', ''https://a.example.com:x@evil.com/results'',
         ''https://investors.example.com/y'', ''https://investors.example.com/y''],
      sleep_log = [], url_queue = [],
      visited_urls =
        {''https://investors.example.com/y'', ''https://a.example.com:x@evil.com/results'',
         ''https://a.example.com/x''},
      found_documents = [], max_depth = 2, base_domain = Some ''example.com'',
      processed_log =
        [''https://a.example.com/x'', ''https://a.example.com:x@evil.com/results'',
         ''https://investors.example.com/y''],
      enqueue_log =
        [''https://a.example.com:x@evil.com/results'', ''https://investors.example.com/y'']\<rparr>)"
  by code_simp

lemma links_domain_checks:
  "extract_base_domain (example_env links_net) ''https://a.example.com/x'' = Returned ''example.com''
   \<and> py_netloc ''https://a.example.com:x@evil.com/results'' = Some ''a.example.com:x@evil.com''
   \<and> registrable_domain (host_of_netloc ''a.example.com:x@evil.com'') = ''evil.com''
   \<and> is_same_domain (example_env links_net) (Some ''example.com'')
         ''https://a.example.com:x@evil.com/results''
   \<and> \<not> is_same_domain (example_env links_net) (Some ''example.com'') ''https://evil.com/results''
   \<and> is_same_domain (example_env links_net) (Some ''example.com'') ''https://investors.example.com/y''"
  by code_simp

text \<open>
  Claim C7 at a failing input.  For a crawl seeded at \<open>https://a.example.com/x\<close> the link
  to \<open>https://evil.com/results\<close> is not queued and the link to
  \<open>https://investors.example.com/y\<close> is, as the claim says.  But the base domain is
  computed from the network location up to its first colon, not from the host: the
  link \<open>https://a.example.com:x@evil.com/results\<close>, whose host is \<open>evil.com\<close>, is taken
  for \<open>example.com\<close>, queued and fetched.
\<close>

theorem userinfo_link_passes_domain_check:
  "extract_base_domain (example_env links_net) ''https://a.example.com/x'' = Returned ''example.com''
   \<and> py_netloc ''https://a.example.com:x@evil.com/results'' = Some ''a.example.com:x@evil.com''
   \<and> registrable_domain (host_of_netloc ''a.example.com:x@evil.com'') = ''evil.com''
   \<and> is_same_domain (example_env links_net) (Some ''example.com'')
         ''https://a.example.com:x@evil.com/results''
   \<and> \<not> is_same_domain (example_env links_net) (Some ''example.com'') ''https://evil.com/results''
   \<and> enqueue_log (snd (find_annual_reports (example_env links_net)
         ''https://a.example.com/x'' new_crawler)) =
       [''https://a.example.com:x@evil.com/results'', ''https://investors.example.com/y'']
   \<and> get_log (snd (find_annual_reports (example_env links_net)
         ''https://a.example.com/x'' new_crawler)) =
       [''https://a.example.com/x'', ''https://a.example.com/x'',
        ''https://a.example.com:x@evil.com/results'', ''https://a.example.com:x@evil.com/results'',
        ''https://investors.example.com/y'', ''https://investors.example.com/y'']"
  using links_domain_checks by (simp add: links_crawl_result)

end
